theory Spec2Isabelle
  imports Main "HOL-Library.Char_ord" "HOL-Library.List_Lexorder"
begin

section \<open>Strings of the Go program\<close>

text \<open>
  A Go \<^verbatim>\<open>string\<close> is a sequence of bytes: \<^verbatim>\<open>len(s)\<close> counts bytes and
  \<^verbatim>\<open>s[:n]\<close> slices bytes. It is modelled as \<^typ>\<open>string\<close>, a list of 8-bit
  \<^typ>\<open>char\<close>s. Comparison of strings (\<^verbatim>\<open>sort.Strings\<close>) is bytewise
  lexicographic, which is the order of \<^theory_text>\<open>List_Lexorder\<close> over
  \<^theory_text>\<open>Char_ord\<close>. A Go \<^verbatim>\<open>int\<close> that is only stored and compared
  (tag ids, HTTP status codes) is an \<^typ>\<open>int\<close>.
\<close>

subsection \<open>Standard-library helpers used by the source\<close>

text \<open>
  \<^verbatim>\<open>strings.Join(elems, sep)\<close>.
\<close>

fun Join :: "string list \<Rightarrow> string \<Rightarrow> string" where
  "Join [] sep = []"
| "Join [x] sep = x"
| "Join (x # y # ys) sep = x @ sep @ Join (y # ys) sep"

text \<open>
  \<^verbatim>\<open>strings.TrimSpace\<close> removes leading and trailing white space as
  \<^verbatim>\<open>unicode.IsSpace\<close> defines it. On the bytes of a string these are the six
  ASCII characters tab, line feed, vertical tab, form feed, carriage return and space,
  and the UTF-8 encodings of U+0085, U+00A0, U+1680, U+2000 to U+200A, U+2028, U+2029,
  U+202F, U+205F and U+3000. A byte sequence that is not valid UTF-8 decodes to the
  replacement character, which is not white space, so trimming stops there.
\<close>

definition spaceEncodings :: "string list" where
  "spaceEncodings =
     map (\<lambda>c. [c]) [CHR 0x09, CHR 0x0A, CHR 0x0B, CHR 0x0C, CHR 0x0D, CHR 0x20] @
     [[CHR 0xC2, CHR 0x85], [CHR 0xC2, CHR 0xA0], [CHR 0xE1, CHR 0x9A, CHR 0x80]] @
     map (\<lambda>c. [CHR 0xE2, CHR 0x80, c])
       [CHR 0x80, CHR 0x81, CHR 0x82, CHR 0x83, CHR 0x84, CHR 0x85, CHR 0x86, CHR 0x87,
        CHR 0x88, CHR 0x89, CHR 0x8A, CHR 0xA8, CHR 0xA9, CHR 0xAF] @
     [[CHR 0xE2, CHR 0x81, CHR 0x9F], [CHR 0xE3, CHR 0x80, CHR 0x80]]"

text \<open>The width in bytes of the white-space character a string starts with, 0 if none.\<close>

definition leadingSpace :: "string \<Rightarrow> nat" where
  "leadingSpace s =
     (case filter (\<lambda>e. take (length e) s = e) spaceEncodings of
        [] \<Rightarrow> 0
      | e # _ \<Rightarrow> length e)"

fun TrimLeft :: "string \<Rightarrow> string" where
  "TrimLeft [] = []"
| "TrimLeft (c # cs) =
     (if leadingSpace (c # cs) = 0 then c # cs
      else TrimLeft (drop (leadingSpace (c # cs) - 1) cs))"

text \<open>
  From the right, \<^verbatim>\<open>utf8.DecodeLastRuneInString\<close> finds a white-space character
  exactly when the string ends with one of the encodings above.
\<close>

definition trailingSpace :: "string \<Rightarrow> nat" where
  "trailingSpace s =
     (case filter (\<lambda>e. take (length e) (rev s) = rev e) spaceEncodings of
        [] \<Rightarrow> 0
      | e # _ \<Rightarrow> length e)"

fun TrimRightRev :: "string \<Rightarrow> string" where
  "TrimRightRev [] = []"
| "TrimRightRev (c # cs) =
     (if trailingSpace (rev (c # cs)) = 0 then c # cs
      else TrimRightRev (drop (trailingSpace (rev (c # cs)) - 1) cs))"

definition TrimSpace :: "string \<Rightarrow> string" where
  "TrimSpace s = rev (TrimRightRev (rev (TrimLeft s)))"

text \<open>
  \<^verbatim>\<open>strings.EqualFold(s, "NONE")\<close>: equality under Unicode simple case folding.
  The letters N, O and E fold only to their ASCII lower-case forms, so \<open>s\<close> folds to
  \<open>NONE\<close> exactly when it is those four ASCII letters in either case.
\<close>

definition asciiLower :: "char \<Rightarrow> char" where
  "asciiLower c =
     (if CHR ''A'' \<le> c \<and> c \<le> CHR ''Z'' then char_of (of_char c + (32::nat)) else c)"

definition EqualFoldNONE :: "string \<Rightarrow> bool" where
  "EqualFoldNONE s \<longleftrightarrow> map asciiLower s = ''none''"

subsection \<open>\<^verbatim>\<open>time.Parse("2006-01-02", value)\<close>\<close>

text \<open>
  The layout has three fields, a four-digit year, a two-digit month and a two-digit
  day, separated by literal hyphens. The definitions follow the helpers of package
  \<^verbatim>\<open>time\<close>: \<^verbatim>\<open>isDigit\<close>, \<^verbatim>\<open>atoi\<close> on the year's four bytes, \<^verbatim>\<open>getnum\<close> with
  \<^verbatim>\<open>fixed = true\<close>, \<^verbatim>\<open>skip\<close> for the literal text, and the final range checks with
  \<^verbatim>\<open>daysIn\<close> and \<^verbatim>\<open>isLeap\<close>. Every failure is the value \<open>None\<close>.
\<close>

definition isDigitChar :: "char \<Rightarrow> bool" where
  "isDigitChar c \<longleftrightarrow> CHR ''0'' \<le> c \<and> c \<le> CHR ''9''"

definition isDigit :: "string \<Rightarrow> nat \<Rightarrow> bool" where
  "isDigit s i \<longleftrightarrow> i < length s \<and> isDigitChar (s ! i)"

definition digitVal :: "char \<Rightarrow> nat" where
  "digitVal c = of_char c - 48"

fun leadingInt :: "nat \<Rightarrow> string \<Rightarrow> nat \<times> string" where
  "leadingInt x [] = (x, [])"
| "leadingInt x (c # cs) =
     (if isDigitChar c then leadingInt (x * 10 + digitVal c) cs else (x, c # cs))"

definition atoi :: "string \<Rightarrow> int option" where
  "atoi s =
     (let neg = (s \<noteq> [] \<and> hd s = CHR ''-'');
          s' = (if s \<noteq> [] \<and> (hd s = CHR ''-'' \<or> hd s = CHR ''+'') then tl s else s);
          (q, rem) = leadingInt 0 s'
      in if rem \<noteq> [] then None
         else Some (if neg then - int q else int q))"

definition getnum :: "string \<Rightarrow> bool \<Rightarrow> (nat \<times> string) option" where
  "getnum s fixed =
     (if \<not> isDigit s 0 then None
      else if \<not> isDigit s 1 then
        (if fixed then None else Some (digitVal (s ! 0), drop 1 s))
      else Some (digitVal (s ! 0) * 10 + digitVal (s ! 1), drop 2 s))"

text \<open>\<^verbatim>\<open>skip\<close> for a prefix without spaces (the layout's literal text is a hyphen).\<close>

fun skip :: "string \<Rightarrow> string \<Rightarrow> string option" where
  "skip v [] = Some v"
| "skip [] (p # ps) = None"
| "skip (c # cs) (p # ps) = (if c \<noteq> p then None else skip cs ps)"

definition isLeap :: "int \<Rightarrow> bool" where
  "isLeap year \<longleftrightarrow> year mod 4 = 0 \<and> (year mod 100 \<noteq> 0 \<or> year mod 400 = 0)"

definition daysIn :: "nat \<Rightarrow> int \<Rightarrow> nat" where
  "daysIn m year =
     (if m = 2 then (if isLeap year then 29 else 28)
      else if m \<in> set [4, 6, 9, 11] then 30 else 31)"

definition parseDate :: "string \<Rightarrow> (int \<times> nat \<times> nat) option" where
  "parseDate v =
     (if length v < 4 \<or> \<not> isDigit v 0 then None
      else case atoi (take 4 v) of
        None \<Rightarrow> None
      | Some year \<Rightarrow>
      (case skip (drop 4 v) ''-'' of
        None \<Rightarrow> None
      | Some v1 \<Rightarrow>
      (case getnum v1 True of
        None \<Rightarrow> None
      | Some (month, v2) \<Rightarrow>
      if month \<le> 0 \<or> 12 < month then None
      else (case skip v2 ''-'' of
        None \<Rightarrow> None
      | Some v3 \<Rightarrow>
      (case getnum v3 True of
        None \<Rightarrow> None
      | Some (day, v4) \<Rightarrow>
      if v4 \<noteq> [] then None
      else if day < 1 \<or> daysIn month year < day then None
      else Some (year, month, day))))))"

text \<open>
  The same set of strings in the words of the specification: a valid calendar date in
  \<open>YYYY-MM-DD\<close> form is ten bytes, digits except for the two hyphens, whose month is
  1 to 12 and whose day exists in that month of that year.
\<close>

definition num2 :: "char \<Rightarrow> char \<Rightarrow> nat" where
  "num2 a b = digitVal a * 10 + digitVal b"

definition num4 :: "char \<Rightarrow> char \<Rightarrow> char \<Rightarrow> char \<Rightarrow> nat" where
  "num4 a b c d = ((digitVal a * 10 + digitVal b) * 10 + digitVal c) * 10 + digitVal d"

definition valid_calendar_date :: "string \<Rightarrow> bool" where
  "valid_calendar_date s \<longleftrightarrow>
     (case s of
        [y1, y2, y3, y4, h1, m1, m2, h2, d1, d2] \<Rightarrow>
          list_all isDigitChar [y1, y2, y3, y4, m1, m2, d1, d2] \<and>
          h1 = CHR ''-'' \<and> h2 = CHR ''-'' \<and>
          1 \<le> num2 m1 m2 \<and> num2 m1 m2 \<le> 12 \<and>
          1 \<le> num2 d1 d2 \<and> num2 d1 d2 \<le> daysIn (num2 m1 m2) (int (num4 y1 y2 y3 y4))
      | _ \<Rightarrow> False)"

section \<open>Date inference: \<^verbatim>\<open>internal/llm/llm.go\<close>\<close>

record ollamaRequest =
  Model :: string
  Prompt :: string
  Stream :: bool

text \<open>
  What the HTTP exchange with the inference service can come to: the request fails, or
  a reply arrives with a status code and a body that either decodes to a JSON object
  with a \<open>response\<close> field or does not decode.
\<close>

datatype ollamaBody = Undecodable | Response string

datatype postOutcome = PostFailed | PostReply int ollamaBody

datatype llmError = MarshalError | RequestError | StatusError int | DecodeError

text \<open>
  The service is a function from the URL and the request to the outcome;
  \<open>marshalFails\<close> stands for the error branch of \<^verbatim>\<open>json.Marshal\<close>.
\<close>

record ollama =
  marshalFails :: bool
  post :: "string \<Rightarrow> ollamaRequest \<Rightarrow> postOutcome"

definition promptPrefix :: string where
  "promptPrefix =
     ''Extract the document date from the following text. The document date is the date the document was created, issued, or refers to (e.g. invoice date, letter date, statement date). Return ONLY the date in YYYY-MM-DD format. If no date can be determined, return ''
     @ [CHR 0x22] @ ''NONE'' @ [CHR 0x22] @ ''.'' @ [CHR 0x0A, CHR 0x0A] @ ''Text:'' @ [CHR 0x0A]"

definition promptSuffix :: string where
  "promptSuffix = [CHR 0x0A, CHR 0x0A] @ ''Date:''"

text \<open>Lines 25 to 27: the text is cut to its first 2000 bytes.\<close>

definition truncateText :: "string \<Rightarrow> string" where
  "truncateText text = (if length text > 2000 then take 2000 text else text)"

definition inferRequest :: "string \<Rightarrow> string \<Rightarrow> ollamaRequest" where
  "inferRequest model text =
     \<lparr>Model = model, Prompt = promptPrefix @ truncateText text @ promptSuffix, Stream = False\<rparr>"

text \<open>Lines 61 to 71: what is made of the decoded \<open>response\<close> field.\<close>

definition acceptResponse :: "string \<Rightarrow> string \<times> llmError option" where
  "acceptResponse response =
     (let dateStr = TrimSpace response
      in if dateStr = [] \<or> EqualFoldNONE dateStr then ([], None)
         else if parseDate dateStr = None then ([], None)
         else (dateStr, None))"

definition InferDate :: "ollama \<Rightarrow> string \<Rightarrow> string \<Rightarrow> string \<Rightarrow> string \<times> llmError option" where
  "InferDate svc ollamaURL model text =
     (if marshalFails svc then ([], Some MarshalError)
      else case post svc (ollamaURL @ ''/api/generate'') (inferRequest model text) of
        PostFailed \<Rightarrow> ([], Some RequestError)
      | PostReply status body \<Rightarrow>
          if status \<noteq> 200 then ([], Some (StatusError status))
          else (case body of
                  Undecodable \<Rightarrow> ([], Some DecodeError)
                | Response r \<Rightarrow> acceptResponse r))"




definition eAcute :: string where
  "eAcute = [CHR 0xC3, CHR 0xA9]"


definition invoiceText :: string where
  "invoiceText = replicate 1999 CHR ''a'' @ eAcute"


section \<open>The application state: \<^verbatim>\<open>main.go\<close>\<close>

text \<open>
  The structs of \<^verbatim>\<open>main.go\<close> as records. Go allows the same field name in several
  structs; here the fields of \<^verbatim>\<open>TagSetEntry\<close> are \<open>entryID\<close>, \<open>entryName\<close>,
  \<open>entryColor\<close> and those of \<^verbatim>\<open>ShortcutConfig\<close> are \<open>Key\<close>, \<open>shortcutTagID\<close>,
  \<open>shortcutName\<close>, \<open>shortcutColor\<close>, so that every field has its own name.
\<close>

record ShortcutConfig =
  Key :: string
  shortcutTagID :: int
  shortcutName :: string
  shortcutColor :: string

record Config =
  GodocsServer :: string
  Addr :: string
  Shortcuts :: "ShortcutConfig list"
  OllamaURL :: string
  OllamaModel :: string
  InboxDir :: string
  TaggedDir :: string

record TagSetEntry =
  entryID :: int
  entryName :: string
  entryColor :: string

record RecentTagSet =
  Tags :: "TagSetEntry list"
  Label :: string

record GodocsTag =
  ID :: int
  Name :: string
  Color :: string
  TagGroup :: string
  SortOrder :: int

record GodocsClient =
  baseURL :: string
  tags :: "int \<rightharpoonup> GodocsTag"

text \<open>
  A file-system path is either given by a string as it is or made by
  \<^verbatim>\<open>filepath.Join(dir, name)\<close>. The program only hands paths to the operating system,
  so a joined path is kept as the pair it was made from. The fields \<open>FromDir\<close> and
  \<open>ToDir\<close> of \<^verbatim>\<open>LastAction\<close> hold such paths.
\<close>

datatype path = Path string | JoinPath path string

record LastAction =
  DocULID :: string
  DocName :: string
  TagID :: int
  TagName :: string
  File :: string
  FromDir :: path
  ToDir :: path

text \<open>
  \<open>client\<close> is \<open>None\<close> for the nil pointer of demo mode, \<open>lastAction\<close> is \<open>None\<close> for
  the nil pointer of "nothing to undo". The two Go maps are partial functions; reading
  a Go map at a missing key gives the zero value of the value type.
\<close>

record App =
  config :: Config
  configFile :: string
  client :: "GodocsClient option"
  lastAction :: "LastAction option"
  llmDates :: "string \<rightharpoonup> bool"
  recentSets :: "RecentTagSet list"
  docStage :: "string \<rightharpoonup> string"
  thumbDir :: string

definition stageOCR :: string where
  "stageOCR = ''ocr''"

definition stageLLM :: string where
  "stageLLM = ''llm''"

definition isDemo :: "App \<Rightarrow> bool" where
  "isDemo app \<longleftrightarrow> client app = None"

text \<open>\<^verbatim>\<open>app.docStage[ulid]\<close> and \<^verbatim>\<open>app.llmDates[ulid]\<close> as Go reads them.\<close>

definition stageOf :: "App \<Rightarrow> string \<Rightarrow> string" where
  "stageOf app ulid = (case docStage app ulid of None \<Rightarrow> [] | Some s \<Rightarrow> s)"

definition dateIsLLM :: "App \<Rightarrow> string \<Rightarrow> bool" where
  "dateIsLLM app ulid = (case llmDates app ulid of None \<Rightarrow> False | Some b \<Rightarrow> b)"

section \<open>Tag history: \<^verbatim>\<open>captureTagSet\<close>\<close>

text \<open>
  What the HTTP exchange of \<^verbatim>\<open>FetchDocTags\<close> can come to: the request fails, the
  body does not decode as a list of tags (the store sends \<^verbatim>\<open>null\<close> for no tags), or
  it decodes to a list. \<^verbatim>\<open>FetchDocTags\<close> turns the second into a nil slice with a
  nil error.
\<close>

datatype tagsReply = GetFailed | NotDecodable | TagList "GodocsTag list"

datatype storeError = FetchError

definition FetchDocTags :: "tagsReply \<Rightarrow> storeError + GodocsTag list" where
  "FetchDocTags reply =
     (case reply of
        GetFailed \<Rightarrow> Inl FetchError
      | NotDecodable \<Rightarrow> Inr []
      | TagList ts \<Rightarrow> Inr ts)"

text \<open>Lines 523 to 531: the entry built from the document's tags.\<close>

definition newTagSet :: "GodocsTag list \<Rightarrow> RecentTagSet" where
  "newTagSet ts =
     \<lparr>Tags = map (\<lambda>t. \<lparr>entryID = ID t, entryName = Name t, entryColor = Color t\<rparr>) ts,
      Label = Join (sort (map Name ts)) '', ''\<rparr>"

text \<open>
  \<open>captureTagSet reply app\<close> is \<^verbatim>\<open>app.captureTagSet(ulid)\<close> where \<open>reply\<close> is what
  the store answers to the request for the tags of \<open>ulid\<close>.
\<close>

definition captureTagSet :: "tagsReply \<Rightarrow> App \<Rightarrow> App" where
  "captureTagSet reply app =
     (if client app = None then app
      else case FetchDocTags reply of
        Inl err \<Rightarrow> app
      | Inr ts \<Rightarrow>
          if length ts = 0 then app
          else
            let newSet = newTagSet ts;
                filtered = filter (\<lambda>s. Label s \<noteq> Label newSet) (recentSets app);
                sets = newSet # filtered
            in app\<lparr>recentSets := (if length sets > 3 then take 3 sets else sets)\<rparr>)"

text \<open>The invariant of the tag history.\<close>

definition historyOK :: "RecentTagSet list \<Rightarrow> bool" where
  "historyOK h \<longleftrightarrow> length h \<le> 3 \<and> distinct (map Label h)"

section \<open>Undo record: the handlers of \<^verbatim>\<open>/tag\<close>, \<^verbatim>\<open>/done\<close>, \<^verbatim>\<open>/api/apply-tagset\<close> and \<^verbatim>\<open>/undo\<close>\<close>

text \<open>
  A handler is a function from the request and the application state to the response,
  the calls it makes to the document store and to the file system, in order, and the
  new state. What a call answers is an argument of the handler. Log lines are left out.
\<close>

datatype call =
    AddTag string int
  | RemoveTag string int
  | FetchTags string
  | MkdirAll path
  | Rename path path

datatype response = Redirect string

text \<open>The arrow U+2190 of the flash messages, in UTF-8.\<close>

definition leftArrow :: string where
  "leftArrow = [CHR 0xE2, CHR 0x86, CHR 0x90]"

definition noAction :: LastAction where
  "noAction = \<lparr>DocULID = [], DocName = [], TagID = 0, TagName = [], File = [],
               FromDir = Path [], ToDir = Path []\<rparr>"

text \<open>
  Lines 986 to 1050. \<open>tagKey\<close>, \<open>item\<close>, \<open>docULID\<close> and \<open>docName\<close> are the form
  values \<open>tag\<close>, \<open>item\<close>, \<open>ulid\<close> and \<open>name\<close>; \<open>renameOK\<close> says whether
  \<^verbatim>\<open>os.Rename\<close> succeeds, \<open>addTagErr\<close> is the error of \<^verbatim>\<open>AddTag\<close> if any, and
  \<open>reply\<close> is the store's answer to the request for the document's tags.
\<close>

definition tagHandler ::
  "string \<Rightarrow> string \<Rightarrow> string \<Rightarrow> string \<Rightarrow> string \<Rightarrow> bool \<Rightarrow> string option \<Rightarrow> tagsReply
     \<Rightarrow> App \<Rightarrow> response \<times> call list \<times> App" where
  "tagHandler method tagKey item docULID docName renameOK addTagErr reply app =
     (if method \<noteq> ''POST'' then (Redirect ''/'', [], app)
      else if isDemo app then
        (let tagName = (case find (\<lambda>s. Key s = tagKey) (Shortcuts (config app)) of
                          None \<Rightarrow> []
                        | Some s \<Rightarrow> shortcutName s)
         in if tagName = [] \<or> item = [] then (Redirect ''/'', [], app)
            else
              let destDir = JoinPath (Path (TaggedDir (config app))) tagName;
                  src = JoinPath (Path (InboxDir (config app))) item;
                  dst = JoinPath destDir item
              in if \<not> renameOK then (Redirect ''/'', [MkdirAll destDir, Rename src dst], app)
                 else (Redirect (''/?flash='' @ tagKey @ '':'' @ tagName @ '' '' @ leftArrow
                                   @ '' '' @ item),
                       [MkdirAll destDir, Rename src dst],
                       app\<lparr>lastAction := Some (noAction\<lparr>File := item,
                                FromDir := Path (InboxDir (config app)), ToDir := destDir\<rparr>)\<rparr>))
      else
        (case find (\<lambda>s. Key s = tagKey) (Shortcuts (config app)) of
           None \<Rightarrow> (Redirect ''/'', [], app)
         | Some shortcut \<Rightarrow>
             if docULID = [] then (Redirect ''/'', [], app)
             else (case addTagErr of
                Some err \<Rightarrow>
                  (Redirect (''/?flash=Error: '' @ err),
                   [AddTag docULID (shortcutTagID shortcut)], app)
              | None \<Rightarrow>
                  (Redirect (''/?flash='' @ Key shortcut @ '':'' @ shortcutName shortcut @ '' ''
                               @ leftArrow @ '' '' @ docName),
                   [AddTag docULID (shortcutTagID shortcut), FetchTags docULID],
                   (captureTagSet reply app)
                     \<lparr>lastAction := Some (noAction\<lparr>DocULID := docULID, DocName := docName,
                          TagID := shortcutTagID shortcut,
                          TagName := shortcutName shortcut\<rparr>)\<rparr>))))"

text \<open>Lines 1052 to 1067.\<close>

definition doneHandler :: "string \<Rightarrow> string \<Rightarrow> tagsReply \<Rightarrow> App \<Rightarrow> response \<times> call list \<times> App" where
  "doneHandler method ulid reply app =
     (if method \<noteq> ''POST'' then (Redirect ''/'', [], app)
      else if \<not> isDemo app \<and> ulid \<noteq> []
        then (Redirect ''/'', [FetchTags ulid], captureTagSet reply app)
        else (Redirect ''/'', [], app))"

text \<open>
  Lines 1069 to 1095. \<open>index\<close> is the result of \<^verbatim>\<open>strconv.Atoi\<close> on the form value
  (\<open>None\<close> when it is not a number). The errors of \<^verbatim>\<open>AddTag\<close> are only logged.
\<close>

definition applyTagsetHandler ::
  "string \<Rightarrow> string \<Rightarrow> string \<Rightarrow> int option \<Rightarrow> tagsReply \<Rightarrow> App \<Rightarrow> response \<times> call list \<times> App" where
  "applyTagsetHandler method ulid docName index reply app =
     (if method \<noteq> ''POST'' \<or> isDemo app then (Redirect ''/'', [], app)
      else case index of
        None \<Rightarrow> (Redirect ''/'', [], app)
      | Some i \<Rightarrow>
          if i < 0 \<or> i \<ge> int (length (recentSets app)) \<or> ulid = [] then (Redirect ''/'', [], app)
          else
            let set = recentSets app ! nat i
            in (Redirect (''/?flash='' @ Label set @ '' '' @ leftArrow @ '' '' @ docName),
                map (\<lambda>tag. AddTag ulid (entryID tag)) (Tags set) @ [FetchTags ulid],
                captureTagSet reply app))"

text \<open>
  Lines 1097 to 1127. An error of \<^verbatim>\<open>os.Rename\<close> or of \<^verbatim>\<open>RemoveTag\<close> is only logged,
  so what the call answers is not an argument.
\<close>

definition undoHandler :: "string \<Rightarrow> App \<Rightarrow> response \<times> call list \<times> App" where
  "undoHandler method app =
     (if method \<noteq> ''POST'' then (Redirect ''/'', [], app)
      else case lastAction app of
        None \<Rightarrow> (Redirect ''/'', [], app)
      | Some la \<Rightarrow>
          if isDemo app then
            (let src = JoinPath (ToDir la) (File la);
                 dst = JoinPath (FromDir la) (File la)
             in (Redirect (''/?flash=undo '' @ leftArrow @ '' '' @ File la),
                 [Rename src dst],
                 app\<lparr>lastAction := None\<rparr>))
          else
            (Redirect (''/?flash=undo '' @ leftArrow @ '' '' @ DocName la),
             [RemoveTag (DocULID la) (TagID la)],
             app\<lparr>lastAction := None\<rparr>))"

text \<open>
  The handler has no boolean result; an undo was carried out exactly when the redirect
  carries the flash message, and nothing was undone when it goes to the plain \<open>/\<close>.
\<close>

definition undone :: "response \<times> call list \<times> App \<Rightarrow> bool" where
  "undone r \<longleftrightarrow> fst r \<noteq> Redirect ''/''"

section \<open>Text extraction: \<^verbatim>\<open>internal/ocr/ocr.go\<close>\<close>

text \<open>
  \<^verbatim>\<open>strings.ToLower\<close>. ASCII capitals become lower-case letters; the two characters
  outside ASCII whose lower-case form is an ASCII letter are U+0130 (\<open>i\<close>) and U+212A
  (\<open>k\<close>). Every other character outside ASCII has a lower-case form outside ASCII and
  is left as it is here: the result is only compared with ASCII literals.
\<close>

fun ToLower :: "string \<Rightarrow> string" where
  "ToLower [] = []"
| "ToLower (c # cs) =
     (if take 2 (c # cs) = [CHR 0xC4, CHR 0xB0] then CHR ''i'' # ToLower (drop 1 cs)
      else if take 3 (c # cs) = [CHR 0xE2, CHR 0x84, CHR 0xAA] then CHR ''k'' # ToLower (drop 2 cs)
      else asciiLower c # ToLower cs)"

datatype ocrError = UnsupportedType | MkdirTempFailed | PdftoppmFailed | TesseractFailed

text \<open>
  What the external programs do: whether the temporary directory can be made, whether
  \<^verbatim>\<open>pdftoppm\<close> succeeds, and the standard output of \<^verbatim>\<open>tesseract\<close> (\<open>None\<close> when
  it fails).
\<close>

record ocrTools =
  mkdirTempOK :: bool
  pdftoppmOK :: bool
  tesseract :: "string option"

definition extractFromImage :: "ocrTools \<Rightarrow> ocrError + string" where
  "extractFromImage t =
     (case tesseract t of None \<Rightarrow> Inl TesseractFailed | Some out \<Rightarrow> Inr (TrimSpace out))"

definition extractFromPDF :: "ocrTools \<Rightarrow> ocrError + string" where
  "extractFromPDF t =
     (if \<not> mkdirTempOK t then Inl MkdirTempFailed
      else if \<not> pdftoppmOK t then Inl PdftoppmFailed
      else extractFromImage t)"

definition ExtractText :: "ocrTools \<Rightarrow> path \<Rightarrow> string \<Rightarrow> ocrError + string" where
  "ExtractText t filePath docType =
     (let dt = ToLower docType
      in if dt = ''.pdf'' then extractFromPDF t
         else if dt \<in> set [''.png'', ''.jpg'', ''.jpeg'', ''.tiff'', ''.bmp'']
           then extractFromImage t
         else Inl UnsupportedType)"

section \<open>Stage tracker and enrichment pipeline\<close>

text \<open>
  \<^verbatim>\<open>processDocument\<close> runs as a goroutine. Its effects on the shared state and its
  calls to the collaborators are the \<open>action\<close>s below; each is one atomic step (the
  writes to \<^verbatim>\<open>docStage\<close> and \<^verbatim>\<open>llmDates\<close> are made under their mutex). The
  function \<open>processDocument\<close> gives the exit path that is taken and the actions in the
  order in which they happen, the deferred ones last: \<^verbatim>\<open>os.Remove\<close> of the scratch
  file was deferred after the release of the stage entry, so it runs before it.
\<close>

datatype action =
    Download string
  | CreateTemp string
  | WriteFile path string
  | RunOCR path string
  | UploadText string string
  | SetStage string string
  | Infer string string string
  | UpdateDate string string
  | SetLLMDate string
  | RemoveFile path
  | DeleteStage string

datatype exitPath =
    DownloadFailed
  | TempFileFailed
  | WriteFailed
  | ExtractionFailed ocrError
  | NoText
  | UploadTextFailed
  | InferenceFailed llmError
  | NoDate
  | UpdateDateFailed
  | Completed

text \<open>
  What the collaborators answer during one run: the document's bytes (\<open>None\<close> when the
  download fails), the name of the scratch file (\<open>None\<close> when it cannot be made),
  whether writing it succeeds, the external programs of the text extraction, whether the
  text upload succeeds, the inference service, and whether the date upload succeeds.
\<close>

record pipelineEnv =
  download :: "string option"
  createTemp :: "path option"
  writeOK :: bool
  tools :: ocrTools
  uploadTextOK :: bool
  inference :: ollama
  updateDateOK :: bool

text \<open>Lines 430 to 513.\<close>

definition processDocument :: "App \<Rightarrow> pipelineEnv \<Rightarrow> string \<Rightarrow> string \<Rightarrow> exitPath \<times> action list" where
  "processDocument app env ulid docType =
     (let release = [DeleteStage ulid];
          a1 = [Download ulid]
      in case download env of
        None \<Rightarrow> (DownloadFailed, a1 @ release)
      | Some data \<Rightarrow>
     (let a2 = a1 @ [CreateTemp (''godocs-ocr-*'' @ docType)]
      in case createTemp env of
        None \<Rightarrow> (TempFileFailed, a2 @ release)
      | Some tmpPath \<Rightarrow>
     (let cleanup = RemoveFile tmpPath # release;
          a3 = a2 @ [WriteFile tmpPath data]
      in if \<not> writeOK env then (WriteFailed, a3 @ cleanup)
      else
     (let a4 = a3 @ [RunOCR tmpPath docType]
      in case ExtractText (tools env) tmpPath docType of
        Inl err \<Rightarrow> (ExtractionFailed err, a4 @ cleanup)
      | Inr text \<Rightarrow>
      if text = [] then (NoText, a4 @ cleanup)
      else
     (let a5 = a4 @ [UploadText ulid text]
      in if \<not> uploadTextOK env then (UploadTextFailed, a5 @ cleanup)
      else
     (let ollamaURL = (if OllamaURL (config app) = [] then ''http://localhost:11434''
                       else OllamaURL (config app));
          model = (if OllamaModel (config app) = [] then ''gemma3:4b''
                   else OllamaModel (config app));
          a6 = a5 @ [SetStage ulid stageLLM, Infer ollamaURL model text]
      in case InferDate (inference env) ollamaURL model text of
        (dateStr, Some err) \<Rightarrow> (InferenceFailed err, a6 @ cleanup)
      | (dateStr, None) \<Rightarrow>
      if dateStr = [] then (NoDate, a6 @ cleanup)
      else
     (let a7 = a6 @ [UpdateDate ulid dateStr]
      in if \<not> updateDateOK env then (UpdateDateFailed, a7 @ cleanup)
         else (Completed, a7 @ [SetLLMDate ulid] @ cleanup))))))))"

text \<open>The effect of one action on the application state.\<close>

fun perform :: "action \<Rightarrow> App \<Rightarrow> App" where
  "perform (SetStage ulid stage) app = app\<lparr>docStage := (docStage app)(ulid \<mapsto> stage)\<rparr>"
| "perform (DeleteStage ulid) app = app\<lparr>docStage := (docStage app)(ulid := None)\<rparr>"
| "perform (SetLLMDate ulid) app = app\<lparr>llmDates := (llmDates app)(ulid \<mapsto> True)\<rparr>"
| "perform _ app = app"

text \<open>The states a list of actions goes through, the first state included.\<close>

fun states :: "action list \<Rightarrow> App \<Rightarrow> App list" where
  "states [] app = [app]"
| "states (a # as) app = app # states as (perform a app)"

definition runActions :: "action list \<Rightarrow> App \<Rightarrow> App" where
  "runActions as app = last (states as app)"

text \<open>
  Lines 950 to 959, the part under \<^verbatim>\<open>processingMu\<close>: the claim. It is one atomic
  step that either records the stage \<open>ocr\<close> and starts the goroutine, or does nothing.
\<close>

datatype goroutine = ProcessDocument string string | GenerateHiresThumb string string

definition tryClaim :: "string \<Rightarrow> string \<Rightarrow> App \<Rightarrow> goroutine list \<times> App" where
  "tryClaim ulid docType app =
     (if stageOf app ulid = []
      then ([ProcessDocument ulid docType], app\<lparr>docStage := (docStage app)(ulid \<mapsto> stageOCR)\<rparr>)
      else ([], app))"

text \<open>
  Lines 936 to 968 of the handler of \<open>/\<close>, for the document shown, given its status
  from the store and whether the hi-res thumbnail exists: the flags for the page, the
  goroutines started and the new state.
\<close>

record itemFlags =
  DateIsLLM :: bool
  Processing :: bool
  LLMWorking :: bool
  HasHiresThumb :: bool

definition viewDocument ::
  "string \<Rightarrow> bool \<Rightarrow> bool \<Rightarrow> string \<Rightarrow> bool \<Rightarrow> App \<Rightarrow> itemFlags \<times> goroutine list \<times> App" where
  "viewDocument ulid hasText hasThumbnail docType thumbExists app =
     (let stage = stageOf app ulid;
          (started, app') = (if \<not> hasText \<and> stage = [] then tryClaim ulid docType app
                             else ([], app));
          thumb = (if hasThumbnail \<and> \<not> thumbExists then [GenerateHiresThumb ulid docType]
                   else [])
      in (\<lparr>DateIsLLM = dateIsLLM app ulid,
           Processing = (stage = stageOCR \<or> (\<not> hasText \<and> stage = [])),
           LLMWorking = (stage = stageLLM),
           HasHiresThumb = (hasThumbnail \<and> thumbExists)\<rparr>,
          started @ thumb, app'))"

text \<open>
  The stage of a document as it can be observed while a list of actions runs: before
  the first action and after each one. \<open>stagesObserved\<close> keeps the changes only.
\<close>

definition stagesObserved :: "string \<Rightarrow> App list \<Rightarrow> string list" where
  "stagesObserved ulid sts = remdups_adj (map (\<lambda>app. stageOf app ulid) sts)"

text \<open>The exit paths on which the stage \<open>llm\<close> was entered.\<close>

fun reachedLLM :: "exitPath \<Rightarrow> bool" where
  "reachedLLM (InferenceFailed err) = True"
| "reachedLLM NoDate = True"
| "reachedLLM UpdateDateFailed = True"
| "reachedLLM Completed = True"
| "reachedLLM _ = False"

text \<open>
  Every operation that changes the application state: a page view of a document, one
  action of a pipeline, and the four handlers above with their arguments.
\<close>

datatype operation =
    OpView string bool bool string bool
  | OpAction action
  | OpTag string string string string string bool "string option" tagsReply
  | OpDone string string tagsReply
  | OpApplyTagset string string string "int option" tagsReply
  | OpUndo string

fun applyOp :: "operation \<Rightarrow> App \<Rightarrow> App" where
  "applyOp (OpView ulid hasText hasThumbnail docType thumbExists) app =
     snd (snd (viewDocument ulid hasText hasThumbnail docType thumbExists app))"
| "applyOp (OpAction a) app = perform a app"
| "applyOp (OpTag method tagKey item docULID docName renameOK addTagErr reply) app =
     snd (snd (tagHandler method tagKey item docULID docName renameOK addTagErr reply app))"
| "applyOp (OpDone method ulid reply) app = snd (snd (doneHandler method ulid reply app))"
| "applyOp (OpApplyTagset method ulid docName index reply) app =
     snd (snd (applyTagsetHandler method ulid docName index reply app))"
| "applyOp (OpUndo method) app = snd (snd (undoHandler method app))"

text \<open>The actions that write the stage entry of a document.\<close>

fun touches :: "string \<Rightarrow> action \<Rightarrow> bool" where
  "touches ulid (SetStage u stage) = (u = ulid)"
| "touches ulid (DeleteStage u) = (u = ulid)"
| "touches ulid _ = False"

text \<open>
  The actions of a run up to the text extraction, and up to the call of the inference
  service, as the exit paths below share them.
\<close>

definition upToOCR :: "string \<Rightarrow> string \<Rightarrow> path \<Rightarrow> string \<Rightarrow> action list" where
  "upToOCR ulid docType tmpPath data =
     [Download ulid, CreateTemp (''godocs-ocr-*'' @ docType), WriteFile tmpPath data,
      RunOCR tmpPath docType]"

definition upToInfer :: "string \<Rightarrow> string \<Rightarrow> path \<Rightarrow> string \<Rightarrow> string \<Rightarrow> string \<Rightarrow> string \<Rightarrow> action list" where
  "upToInfer ulid docType tmpPath data text ollamaURL model =
     upToOCR ulid docType tmpPath data @
     [UploadText ulid text, SetStage ulid stageLLM, Infer ollamaURL model text]"

section \<open>Thumbnail cache: \<^verbatim>\<open>hiresThumbExists\<close> and \<^verbatim>\<open>generateHiresThumb\<close>\<close>

text \<open>
  The file system is a map from paths to the bytes of the file there. \<^verbatim>\<open>os.Stat\<close>
  succeeds when a file is present, whatever it holds.
\<close>

type_synonym fs = "path \<rightharpoonup> string"

definition hiresThumbPath :: "App \<Rightarrow> string \<Rightarrow> path" where
  "hiresThumbPath app ulid = JoinPath (Path (thumbDir app)) (ulid @ ''.png'')"

definition hiresThumbExists :: "App \<Rightarrow> fs \<Rightarrow> string \<Rightarrow> bool" where
  "hiresThumbExists app files ulid \<longleftrightarrow> files (hiresThumbPath app ulid) \<noteq> None"

text \<open>Lines 1300 to 1310, the handler that the page polls.\<close>

definition thumbnailReady :: "App \<Rightarrow> fs \<Rightarrow> string \<Rightarrow> bool" where
  "thumbnailReady app files ulid = (if isDemo app then False else hiresThumbExists app files ulid)"










section \<open>The goroutines together\<close>

text \<open>
  The handlers and the pipelines run concurrently and meet only in the shared
  application state, whose maps they read and write under a mutex. The system is the
  shared state together with the pipelines that were started, each with the document
  it works on and the actions it has still to do. An event is a page view of a
  document (with the answers that the collaborators will give to the pipeline, should
  the view start one), the next action of one of the pipelines, or a request to one of
  the other handlers. Any interleaving of the goroutines is a list of events.
\<close>

record system =
  shared :: App
  pipelines :: "(string \<times> action list) list"

datatype event =
    View string bool bool string bool pipelineEnv
  | Step nat
  | Request operation

fun isRequest :: "operation \<Rightarrow> bool" where
  "isRequest (OpView ulid hasText hasThumbnail docType thumbExists) = False"
| "isRequest (OpAction a) = False"
| "isRequest _ = True"

text \<open>Thumbnail generation does not use the application state.\<close>

fun spawn :: "App \<Rightarrow> pipelineEnv \<Rightarrow> goroutine \<Rightarrow> (string \<times> action list) list" where
  "spawn app env (ProcessDocument ulid docType) =
     [(ulid, snd (processDocument app env ulid docType))]"
| "spawn app env (GenerateHiresThumb ulid docType) = []"

fun fire :: "event \<Rightarrow> system \<Rightarrow> system" where
  "fire (View ulid hasText hasThumbnail docType thumbExists env) sys =
     (let (flags, started, app') =
            viewDocument ulid hasText hasThumbnail docType thumbExists (shared sys)
      in \<lparr>shared = app', pipelines = pipelines sys @ concat (map (spawn app' env) started)\<rparr>)"
| "fire (Step i) sys =
     (if i < length (pipelines sys) then
        (case pipelines sys ! i of
           (ulid, []) \<Rightarrow> sys
         | (ulid, a # as) \<Rightarrow>
             \<lparr>shared = perform a (shared sys), pipelines = (pipelines sys)[i := (ulid, as)]\<rparr>)
      else sys)"
| "fire (Request op) sys =
     (if isRequest op then sys\<lparr>shared := applyOp op (shared sys)\<rparr> else sys)"

fun run :: "event list \<Rightarrow> system \<Rightarrow> system" where
  "run [] sys = sys"
| "run (e # es) sys = run es (fire e sys)"

text \<open>The pipelines of a document that have not finished, by what they have still to do.\<close>

definition runningIn :: "(string \<times> action list) list \<Rightarrow> string \<Rightarrow> action list list" where
  "runningIn ps ulid = map snd (filter (\<lambda>p. fst p = ulid \<and> snd p \<noteq> []) ps)"

definition running :: "system \<Rightarrow> string \<Rightarrow> action list list" where
  "running sys ulid = runningIn (pipelines sys) ulid"

text \<open>
  What holds of the rest of a pipeline: it writes the stage entry of its own document
  only, never an empty stage, and it removes the entry as its last action and not
  before.
\<close>

definition ownAction :: "string \<Rightarrow> action \<Rightarrow> bool" where
  "ownAction ulid a =
     (case a of SetStage u s \<Rightarrow> u = ulid \<and> s \<noteq> [] | DeleteStage u \<Rightarrow> u = ulid | _ \<Rightarrow> True)"

definition tailOK :: "string \<Rightarrow> action list \<Rightarrow> bool" where
  "tailOK ulid as \<longleftrightarrow>
     as = [] \<or> (last as = DeleteStage ulid \<and> DeleteStage ulid \<notin> set (butlast as)
                \<and> list_all (ownAction ulid) as)"

definition sysInv :: "system \<Rightarrow> bool" where
  "sysInv sys \<longleftrightarrow>
     list_all (\<lambda>p. tailOK (fst p) (snd p)) (pipelines sys)
     \<and> (\<forall>u. length (running sys u) \<le> 1
             \<and> (docStage (shared sys) u \<noteq> None \<longleftrightarrow> running sys u \<noteq> []))
     \<and> (\<forall>u s. docStage (shared sys) u = Some s \<longrightarrow> s \<noteq> [])"

section \<open>Example data\<close>

text \<open>A server-mode application with an empty history, and the tags of two documents.\<close>

definition serverApp :: App where
  "serverApp =
     \<lparr>config = \<lparr>GodocsServer = ''http://test:8000'', Addr = '':8080'', Shortcuts = [],
                OllamaURL = [], OllamaModel = [], InboxDir = [], TaggedDir = []\<rparr>,
      configFile = ''godocs-inbox.yaml'',
      client = Some \<lparr>baseURL = ''http://test:8000'', tags = Map.empty\<rparr>,
      lastAction = None, llmDates = Map.empty, recentSets = [], docStage = Map.empty,
      thumbDir = ''thumbs''\<rparr>"

definition tagsD2 :: "GodocsTag list" where
  "tagsD2 = [\<lparr>ID = 1, Name = ''t2'', Color = ''#111'', TagGroup = [], SortOrder = 0\<rparr>,
             \<lparr>ID = 2, Name = ''t1'', Color = ''#222'', TagGroup = [], SortOrder = 0\<rparr>]"

definition tagsD3 :: "GodocsTag list" where
  "tagsD3 = [\<lparr>ID = 3, Name = ''t1'', Color = ''#333'', TagGroup = [], SortOrder = 0\<rparr>,
             \<lparr>ID = 4, Name = ''t2'', Color = ''#444'', TagGroup = [], SortOrder = 0\<rparr>]"

text \<open>The same application with one shortcut, key \<open>l\<close> for tag 18.\<close>

definition keyedApp :: App where
  "keyedApp = serverApp\<lparr>config := (config serverApp)
     \<lparr>Shortcuts := [\<lparr>Key = ''l'', shortcutTagID = 18, shortcutName = ''letter'',
                      shortcutColor = ''#abc''\<rparr>]\<rparr>\<rparr>"

text \<open>
  A run in which every collaborator succeeds: the text extraction gives the text of an
  invoice and the inference service answers with its date.
\<close>

definition goodEnv :: pipelineEnv where
  "goodEnv =
     \<lparr>download = Some ''%PDF'', createTemp = Some (Path ''/tmp/godocs-ocr-1.pdf''),
      writeOK = True,
      tools = \<lparr>mkdirTempOK = True, pdftoppmOK = True,
               tesseract = Some ''Invoice #123, Date: 2024-03-01''\<rparr>,
      uploadTextOK = True,
      inference = \<lparr>marshalFails = False,
                   post = (\<lambda>u q. PostReply 200 (Response ''2024-03-01''))\<rparr>,
      updateDateOK = True\<rparr>"

text \<open>The actions of that run for the document \<open>D1\<close> of type \<open>.pdf\<close>.\<close>

definition goodActions :: "action list" where
  "goodActions =
     [Download ''D1'', CreateTemp ''godocs-ocr-*.pdf'',
      WriteFile (Path ''/tmp/godocs-ocr-1.pdf'') ''%PDF'',
      RunOCR (Path ''/tmp/godocs-ocr-1.pdf'') ''.pdf'',
      UploadText ''D1'' ''Invoice #123, Date: 2024-03-01'',
      SetStage ''D1'' ''llm'',
      Infer ''http://localhost:11434'' ''gemma3:4b'' ''Invoice #123, Date: 2024-03-01'',
      UpdateDate ''D1'' ''2024-03-01'', SetLLMDate ''D1'',
      RemoveFile (Path ''/tmp/godocs-ocr-1.pdf''), DeleteStage ''D1'']"


section \<open>Facts about the date parser\<close>

lemma skip_hyphen: "skip v ''-'' = Some r \<Longrightarrow> v = CHR ''-'' # r"
  by (cases v) (auto split: if_splits)

lemma getnum_fixed:
  assumes "getnum v True = Some (n, r)"
  shows "\<exists>a b. v = a # b # r \<and> isDigitChar a \<and> isDigitChar b \<and> n = num2 a b"
proof -
  from assms have d0: "isDigit v 0" and d1: "isDigit v 1"
    by (auto simp: getnum_def split: if_splits)
  then obtain a b w where v: "v = a # b # w"
    by (cases v; cases "tl v") (auto simp: isDigit_def)
  with assms d0 d1 show ?thesis
    by (auto simp: getnum_def isDigit_def num2_def)
qed

lemma leadingInt_rem_empty: "leadingInt x s = (q, []) \<Longrightarrow> list_all isDigitChar s"
  by (induction s arbitrary: x) (auto split: if_splits)

lemma digit_not_sign: "isDigitChar c \<Longrightarrow> c \<noteq> CHR ''-'' \<and> c \<noteq> CHR ''+''"
  by (auto simp: isDigitChar_def less_eq_char_def)

lemma atoi_year:
  assumes "4 \<le> length v" "isDigit v 0" "atoi (take 4 v) = Some y"
  shows "\<exists>a b c d r. v = a # b # c # d # r \<and> list_all isDigitChar [a, b, c, d] \<and>
           y = int (num4 a b c d)"
proof -
  from assms(1) obtain a b c d r where v: "v = a # b # c # d # r"
    by (cases v; cases "tl v"; cases "tl (tl v)"; cases "tl (tl (tl v))") auto
  from assms(2) v have da: "isDigitChar a" by (simp add: isDigit_def)
  then have ns: "a \<noteq> CHR ''-''" "a \<noteq> CHR ''+''" using digit_not_sign by auto
  obtain q rem where li: "leadingInt 0 [a, b, c, d] = (q, rem)" by fastforce
  with assms(3) v ns have rem: "rem = []" and y: "y = int q"
    by (auto simp: atoi_def Let_def split: if_splits)
  from li rem have all: "list_all isDigitChar [a, b, c, d]"
    using leadingInt_rem_empty by blast
  with li have "q = num4 a b c d" by (simp add: num4_def)
  with v all y show ?thesis by blast
qed

text \<open>Whatever the parser accepts is a calendar date in the ten-byte form.\<close>

lemma parseDate_sound:
  assumes "parseDate s = Some (y, m, d)"
  shows "valid_calendar_date s"
proof -
  from assms have len: "4 \<le> length s" and d0: "isDigit s 0"
    by (auto simp: parseDate_def split: if_splits)
  from assms len d0 obtain year where at: "atoi (take 4 s) = Some year"
    by (auto simp: parseDate_def split: option.splits if_splits)
  from atoi_year[OF len d0 at] obtain a b c e r where
    s: "s = a # b # c # e # r" and dig: "list_all isDigitChar [a, b, c, e]"
    and yr: "year = int (num4 a b c e)" by blast
  from assms len d0 at s obtain v1 where sk1: "skip r ''-'' = Some v1"
    by (auto simp: parseDate_def split: option.splits if_splits)
  then have r: "r = CHR ''-'' # v1" by (rule skip_hyphen)
  from assms len d0 at s sk1 obtain month v2 where g1: "getnum v1 True = Some (month, v2)"
    by (auto simp: parseDate_def split: option.splits if_splits)
  from getnum_fixed[OF g1] obtain m1 m2 where v1: "v1 = m1 # m2 # v2" and
    dm: "isDigitChar m1" "isDigitChar m2" and mo: "month = num2 m1 m2" by blast
  from assms len d0 at s sk1 g1 have mr: "1 \<le> month" "month \<le> 12"
    by (auto simp: parseDate_def split: option.splits if_splits)
  from assms len d0 at s sk1 g1 mr obtain v3 where sk2: "skip v2 ''-'' = Some v3"
    by (auto simp: parseDate_def split: option.splits if_splits)
  then have v2: "v2 = CHR ''-'' # v3" by (rule skip_hyphen)
  from assms len d0 at s sk1 g1 mr sk2 obtain day v4 where g2: "getnum v3 True = Some (day, v4)"
    by (auto simp: parseDate_def split: option.splits if_splits)
  from getnum_fixed[OF g2] obtain d1 d2 where v3: "v3 = d1 # d2 # v4" and
    dd: "isDigitChar d1" "isDigitChar d2" and da: "day = num2 d1 d2" by blast
  from assms len d0 at s sk1 g1 mr sk2 g2
  have fin: "v4 = []" "1 \<le> day" "day \<le> daysIn month year"
    by (auto simp: parseDate_def split: option.splits if_splits)
  have "s = [a, b, c, e, CHR ''-'', m1, m2, CHR ''-'', d1, d2]"
    using s r v1 v2 v3 fin(1) by simp
  then show ?thesis using dig dm dd mr fin mo da yr
    by (simp add: valid_calendar_date_def)
qed

text \<open>Every calendar date in the ten-byte form is accepted.\<close>

lemma parseDate_complete:
  assumes "valid_calendar_date s"
  shows "parseDate s \<noteq> None"
proof -
  from assms obtain y1 y2 y3 y4 m1 m2 d1 d2 where
    s: "s = [y1, y2, y3, y4, CHR ''-'', m1, m2, CHR ''-'', d1, d2]"
    by (auto simp: valid_calendar_date_def split: list.splits)
  from assms s have dig: "isDigitChar y1" "isDigitChar y2" "isDigitChar y3" "isDigitChar y4"
     "isDigitChar m1" "isDigitChar m2" "isDigitChar d1" "isDigitChar d2"
    and rng: "1 \<le> num2 m1 m2" "num2 m1 m2 \<le> 12" "1 \<le> num2 d1 d2"
      "num2 d1 d2 \<le> daysIn (num2 m1 m2) (int (num4 y1 y2 y3 y4))"
    by (auto simp: valid_calendar_date_def)
  have ns: "y1 \<noteq> CHR ''-''" "y1 \<noteq> CHR ''+''" using digit_not_sign[OF dig(1)] by auto
  have at: "atoi [y1, y2, y3, y4] = Some (int (num4 y1 y2 y3 y4))"
    using dig ns by (simp add: atoi_def num4_def)
  have g1: "getnum (m1 # m2 # r) True = Some (num2 m1 m2, r)" for r
    using dig by (simp add: getnum_def isDigit_def num2_def)
  have g2: "getnum [d1, d2] True = Some (num2 d1 d2, [])"
    using dig by (simp add: getnum_def isDigit_def num2_def)
  show ?thesis using s at g1 g2 rng dig(1)
    by (simp add: parseDate_def isDigit_def)
qed

lemma parseDate_iff: "parseDate s \<noteq> None \<longleftrightarrow> valid_calendar_date s"
proof
  assume "parseDate s \<noteq> None"
  then obtain y m d where "parseDate s = Some (y, m, d)"
    by (cases "parseDate s") auto
  then show "valid_calendar_date s" by (rule parseDate_sound)
next
  assume "valid_calendar_date s"
  then show "parseDate s \<noteq> None" by (rule parseDate_complete)
qed

lemma valid_calendar_date_not_sentinel:
  "valid_calendar_date s \<Longrightarrow> s \<noteq> [] \<and> \<not> EqualFoldNONE s"
  by (auto simp: valid_calendar_date_def EqualFoldNONE_def split: list.splits)

lemma acceptResponse_eq:
  "acceptResponse r =
     (if valid_calendar_date (TrimSpace r) then (TrimSpace r, None) else ([], None))"
  using parseDate_iff[of "TrimSpace r"] valid_calendar_date_not_sentinel[of "TrimSpace r"]
  by (auto simp: acceptResponse_def Let_def)

section \<open>Date inference: the claims\<close>

text \<open>
  Claim C3. For every response string that the inference service returns (the request
  was sent, the status is 200 and the body decodes), \<open>InferDate\<close> returns the trimmed
  response with a nil error when the trimmed response is a valid calendar date in
  \<open>YYYY-MM-DD\<close> form, and the empty string with a nil error for every other response;
  in particular for the sentinel \<open>NONE\<close> in any letter case. So a non-empty result is
  always a valid date, and a response that does not parse is never an error.
\<close>

theorem InferDate_accepts_exactly_dates:
  assumes "\<not> marshalFails svc"
    and "post svc (ollamaURL @ ''/api/generate'') (inferRequest model text)
           = PostReply 200 (Response r)"
  shows "InferDate svc ollamaURL model text =
           (if valid_calendar_date (TrimSpace r) then (TrimSpace r, None) else ([], None))
         \<and> (fst (InferDate svc ollamaURL model text) \<noteq> [] \<longrightarrow>
              valid_calendar_date (TrimSpace r))
         \<and> (EqualFoldNONE (TrimSpace r) \<longrightarrow> InferDate svc ollamaURL model text = ([], None))
         \<and> snd (InferDate svc ollamaURL model text) = None"
proof -
  have "InferDate svc ollamaURL model text = acceptResponse r"
    using assms by (simp add: InferDate_def)
  then show ?thesis
    using valid_calendar_date_not_sentinel[of "TrimSpace r"]
    by (auto simp: acceptResponse_eq)
qed

theorem InferDate_accepts_exactly_dates_witness:
  "InferDate \<lparr>marshalFails = False,
              post = (\<lambda>u q. PostReply 200 (Response ''  2024-03-01 ''))\<rparr>
     ''http://localhost:11434'' ''gemma3:4b'' ''Invoice #123, Date: 2024-03-01''
   = (''2024-03-01'', None)
   \<and> InferDate \<lparr>marshalFails = False, post = (\<lambda>u q. PostReply 200 (Response ''None''))\<rparr>
     ''http://localhost:11434'' ''gemma3:4b'' ''Invoice #123'' = ([], None)"
proof -
  have t1: "TrimSpace ''  2024-03-01 '' = ''2024-03-01''" by code_simp
  have v1: "valid_calendar_date ''2024-03-01''" by code_simp
  have t2: "TrimSpace ''None'' = ''None''" by code_simp
  have v2: "\<not> valid_calendar_date ''None''" by code_simp
  have a: "InferDate \<lparr>marshalFails = False,
              post = (\<lambda>u q. PostReply 200 (Response ''  2024-03-01 ''))\<rparr>
     ''http://localhost:11434'' ''gemma3:4b'' ''Invoice #123, Date: 2024-03-01''
   = (''2024-03-01'', None)"
    using InferDate_accepts_exactly_dates
      [of "\<lparr>marshalFails = False, post = (\<lambda>u q. PostReply 200 (Response ''  2024-03-01 ''))\<rparr>"
          "''http://localhost:11434''" "''gemma3:4b''" "''Invoice #123, Date: 2024-03-01''"
          "''  2024-03-01 ''"]
    by (simp only: t1 v1 if_True ollama.simps simp_thms)
  have b: "InferDate \<lparr>marshalFails = False, post = (\<lambda>u q. PostReply 200 (Response ''None''))\<rparr>
     ''http://localhost:11434'' ''gemma3:4b'' ''Invoice #123'' = ([], None)"
    using InferDate_accepts_exactly_dates
      [of "\<lparr>marshalFails = False, post = (\<lambda>u q. PostReply 200 (Response ''None''))\<rparr>"
          "''http://localhost:11434''" "''gemma3:4b''" "''Invoice #123''" "''None''"]
    by (simp only: t2 v2 if_False ollama.simps simp_thms)
  from a b show ?thesis by (rule conjI)
qed













lemma invoiceText_cut: "truncateText invoiceText = replicate 1999 CHR ''a'' @ [CHR 0xC3]"
  by (simp add: truncateText_def invoiceText_def eAcute_def)







section \<open>Tag history: the claims\<close>

lemma captureTagSet_history:
  assumes "client app \<noteq> None" "ts \<noteq> []"
  shows "recentSets (captureTagSet (TagList ts) app) =
           take 3 (newTagSet ts #
                   filter (\<lambda>s. Label s \<noteq> Label (newTagSet ts)) (recentSets app))"
  using assms by (auto simp: captureTagSet_def FetchDocTags_def Let_def)

lemma captureTagSet_noop:
  assumes "client app = None \<or> reply = GetFailed \<or> reply = NotDecodable \<or> reply = TagList []"
  shows "captureTagSet reply app = app"
  using assms by (auto simp: captureTagSet_def FetchDocTags_def)

lemma historyOK_capture:
  assumes "historyOK (recentSets app)"
  shows "historyOK (recentSets (captureTagSet reply app))"
proof (cases "client app \<noteq> None \<and> (\<exists>ts. reply = TagList ts \<and> ts \<noteq> [])")
  case True
  then obtain ts where r: "reply = TagList ts" "ts \<noteq> []" and c: "client app \<noteq> None" by blast
  let ?n = "newTagSet ts"
  let ?f = "filter (\<lambda>s. Label s \<noteq> Label ?n) (recentSets app)"
  have "distinct (map Label ?f)"
    using assms by (simp add: historyOK_def distinct_map_filter)
  moreover have "Label ?n \<notin> set (map Label ?f)" by auto
  ultimately have "distinct (map Label (?n # ?f))" by simp
  then have "distinct (map Label (take 3 (?n # ?f)))"
    by (metis distinct_take take_map)
  then show ?thesis
    using captureTagSet_history[OF c r(2)] r(1) by (simp add: historyOK_def)
next
  case False
  then have "captureTagSet reply app = app"
    by (cases reply) (auto simp: captureTagSet_def FetchDocTags_def)
  with assms show ?thesis by simp
qed


lemma take_filter_all: "x \<in> set (take n (filter P xs)) \<Longrightarrow> P x"
proof -
  assume "x \<in> set (take n (filter P xs))"
  then have "x \<in> set (filter P xs)" by (rule in_set_takeD)
  then show "P x" by simp
qed

lemma filter_take_filter_neq:
  "filter (\<lambda>s. f s = l) (take n (filter (\<lambda>s. f s \<noteq> l) xs)) = []"
  unfolding filter_empty_conv using take_filter_all by fastforce

lemma historyOK_reachable:
  "recentSets app = [] \<Longrightarrow> historyOK (recentSets (foldl (\<lambda>a r. captureTagSet r a) app replies))"
proof (induction replies rule: rev_induct)
  case Nil
  then show ?case by (simp add: historyOK_def)
next
  case (snoc r rs)
  then show ?case by (simp add: historyOK_capture)
qed

text \<open>
  Claim C6. Every \<open>captureTagSet\<close> keeps the invariant of the tag history: at most 3
  entries, no two with the same label. When the store returns a non-empty tag set, the
  new history is the new entry followed by the old entries with a different label, cut
  to 3: the new entry is first and it is the only entry with its label. When the store
  returns an empty tag set (an empty list, or the \<^verbatim>\<open>null\<close> that does not decode) the
  application state, and with it the history, is unchanged.
\<close>

theorem captureTagSet_history_invariant:
  assumes "historyOK (recentSets app)"
  shows "historyOK (recentSets (captureTagSet reply app))
       \<and> length (recentSets (captureTagSet reply app)) \<le> 3
       \<and> distinct (map Label (recentSets (captureTagSet reply app)))
       \<and> (client app \<noteq> None \<and> ts \<noteq> [] \<longrightarrow>
            recentSets (captureTagSet (TagList ts) app) =
              take 3 (newTagSet ts #
                      filter (\<lambda>s. Label s \<noteq> Label (newTagSet ts)) (recentSets app))
            \<and> hd (recentSets (captureTagSet (TagList ts) app)) = newTagSet ts
            \<and> filter (\<lambda>s. Label s = Label (newTagSet ts))
                 (recentSets (captureTagSet (TagList ts) app)) = [newTagSet ts])
       \<and> captureTagSet (TagList []) app = app
       \<and> captureTagSet NotDecodable app = app"
proof -
  have inv: "historyOK (recentSets (captureTagSet reply app))"
    using assms by (rule historyOK_capture)
  have front: "hd (recentSets (captureTagSet (TagList ts) app)) = newTagSet ts
      \<and> filter (\<lambda>s. Label s = Label (newTagSet ts))
           (recentSets (captureTagSet (TagList ts) app)) = [newTagSet ts]"
    if c: "client app \<noteq> None" and t: "ts \<noteq> []"
  proof -
    let ?n = "newTagSet ts"
    let ?f = "filter (\<lambda>s. Label s \<noteq> Label ?n) (recentSets app)"
    have "take 3 (?n # ?f) = ?n # take 2 ?f"
      by (simp add: numeral_3_eq_3 numeral_2_eq_2)
    then have eq: "recentSets (captureTagSet (TagList ts) app) = ?n # take 2 ?f"
      using captureTagSet_history[OF c t] by simp
    have "filter (\<lambda>s. Label s = Label ?n) (take 2 ?f) = []"
      by (rule filter_take_filter_neq)
    with eq show ?thesis by simp
  qed
  show ?thesis
    using inv front captureTagSet_history[of app ts]
    by (simp add: historyOK_def captureTagSet_noop)
qed

theorem captureTagSet_history_invariant_witness:
  "historyOK (recentSets (captureTagSet (TagList tagsD2) serverApp))
   \<and> recentSets (captureTagSet (TagList tagsD2) serverApp) = [newTagSet tagsD2]
   \<and> recentSets (captureTagSet (TagList tagsD3) (captureTagSet (TagList tagsD2) serverApp))
       = [newTagSet tagsD3]
   \<and> Label (newTagSet tagsD3) = ''t1, t2''"
proof -
  have c: "client serverApp \<noteq> None" by (simp add: serverApp_def)
  have h0: "historyOK (recentSets serverApp)" by (simp add: serverApp_def historyOK_def)
  have l2: "Label (newTagSet tagsD2) = ''t1, t2''" by code_simp
  have l3: "Label (newTagSet tagsD3) = ''t1, t2''" by code_simp
  have n2: "tagsD2 \<noteq> []" and n3: "tagsD3 \<noteq> []" by (simp_all add: tagsD2_def tagsD3_def)
  let ?a1 = "captureTagSet (TagList tagsD2) serverApp"
  have s1: "recentSets ?a1 = [newTagSet tagsD2]"
    using captureTagSet_history_invariant[OF h0, of "TagList tagsD2" tagsD2] c n2
    by (simp add: serverApp_def)
  have h1: "historyOK (recentSets ?a1)"
    using captureTagSet_history_invariant[OF h0, of "TagList tagsD2" tagsD2] by simp
  have c1: "client ?a1 \<noteq> None"
    using c n2 by (auto simp: captureTagSet_def FetchDocTags_def Let_def)
  have s2: "recentSets (captureTagSet (TagList tagsD3) ?a1) = [newTagSet tagsD3]"
    using captureTagSet_history_invariant[OF h1, of "TagList tagsD3" tagsD3] c1 n3
    by (simp add: s1 l2 l3)
  from h1 s1 s2 l3 show ?thesis by simp
qed

text \<open>
  Claim C10. When the request for the document's tags fails, \<open>captureTagSet\<close> returns
  the application state as it was, so the tag history is unchanged, exactly as for an
  empty tag set.
\<close>

theorem captureTagSet_fetch_error_unchanged:
  "captureTagSet GetFailed app = app
   \<and> recentSets (captureTagSet GetFailed app) = recentSets app
   \<and> captureTagSet GetFailed app = captureTagSet (TagList []) app"
  by (simp add: captureTagSet_def FetchDocTags_def)

theorem captureTagSet_fetch_error_unchanged_witness:
  "recentSets (captureTagSet GetFailed (captureTagSet (TagList tagsD2) serverApp))
     = [newTagSet tagsD2]"
proof -
  have c: "client serverApp \<noteq> None" by (simp add: serverApp_def)
  have n2: "tagsD2 \<noteq> []" by (simp add: tagsD2_def)
  have "recentSets (captureTagSet (TagList tagsD2) serverApp) = [newTagSet tagsD2]"
    using captureTagSet_history[OF c n2] by (simp add: serverApp_def)
  then show ?thesis
    using captureTagSet_fetch_error_unchanged[of "captureTagSet (TagList tagsD2) serverApp"]
    by simp
qed

section \<open>Undo record: the claims\<close>

lemma captureTagSet_client: "client (captureTagSet reply app) = client app"
  by (auto simp: captureTagSet_def Let_def split: sum.splits)

lemma captureTagSet_lastAction: "lastAction (captureTagSet reply app) = lastAction app"
  by (auto simp: captureTagSet_def Let_def split: sum.splits)

lemma undoHandler_none:
  "lastAction app = None \<Longrightarrow> undoHandler method app = (Redirect ''/'', [], app)"
  by (simp add: undoHandler_def)

lemma undoHandler_some:
  "lastAction app = Some la \<Longrightarrow>
   undoHandler ''POST'' app =
     (Redirect (''/?flash=undo '' @ leftArrow @ '' '' @ (if isDemo app then File la else DocName la)),
      [if isDemo app then Rename (JoinPath (ToDir la) (File la)) (JoinPath (FromDir la) (File la))
       else RemoveTag (DocULID la) (TagID la)],
      app\<lparr>lastAction := None\<rparr>)"
  by (simp add: undoHandler_def)

lemma undoHandler_clears: "lastAction (snd (snd (undoHandler ''POST'' app))) = None"
  by (cases "lastAction app") (simp_all add: undoHandler_none undoHandler_some)

lemma tagHandler_server:
  assumes "client app \<noteq> None" "find (\<lambda>s. Key s = tagKey) (Shortcuts (config app)) = Some sc"
    "docULID \<noteq> []"
  shows "tagHandler ''POST'' tagKey item docULID docName renameOK None reply app =
           (Redirect (''/?flash='' @ Key sc @ '':'' @ shortcutName sc @ '' '' @ leftArrow @ '' ''
                        @ docName),
            [AddTag docULID (shortcutTagID sc), FetchTags docULID],
            (captureTagSet reply app)
              \<lparr>lastAction := Some (noAction\<lparr>DocULID := docULID, DocName := docName,
                   TagID := shortcutTagID sc, TagName := shortcutName sc\<rparr>)\<rparr>)"
  using assms by (auto simp: tagHandler_def isDemo_def)

lemma tagHandler_demo:
  assumes "client app = None" "find (\<lambda>s. Key s = tagKey) (Shortcuts (config app)) = Some sc"
    "shortcutName sc \<noteq> []" "item \<noteq> []"
  shows "tagHandler ''POST'' tagKey item docULID docName True addTagErr reply app =
           (Redirect (''/?flash='' @ tagKey @ '':'' @ shortcutName sc @ '' '' @ leftArrow @ '' ''
                        @ item),
            [MkdirAll (JoinPath (Path (TaggedDir (config app))) (shortcutName sc)),
             Rename (JoinPath (Path (InboxDir (config app))) item)
                    (JoinPath (JoinPath (Path (TaggedDir (config app))) (shortcutName sc)) item)],
            app\<lparr>lastAction := Some (noAction\<lparr>File := item,
                 FromDir := Path (InboxDir (config app)),
                 ToDir := JoinPath (Path (TaggedDir (config app))) (shortcutName sc)\<rparr>)\<rparr>)"
  using assms by (simp add: tagHandler_def isDemo_def Let_def)

text \<open>
  Claim C7. A \<open>POST\<close> to \<open>/undo\<close> with a record present makes exactly one call, the one
  that reverses the record (\<open>RemoveTag\<close> of the recorded document and tag in server
  mode, \<open>Rename\<close> from the recorded destination back to the recorded origin in demo
  mode), clears the record and redirects with the undo message. With no record it
  redirects to \<open>/\<close>, makes no call and leaves the state as it was. So a second undo
  right after any undo does nothing and makes no call. After a successful \<open>/tag\<close>,
  the call of the undo is the reverse of the call that \<open>/tag\<close> made.
\<close>

theorem undo_single_level:
  "(lastAction app = Some la \<longrightarrow>
      undone (undoHandler ''POST'' app)
      \<and> fst (snd (undoHandler ''POST'' app)) =
          [if isDemo app
           then Rename (JoinPath (ToDir la) (File la)) (JoinPath (FromDir la) (File la))
           else RemoveTag (DocULID la) (TagID la)]
      \<and> snd (snd (undoHandler ''POST'' app)) = app\<lparr>lastAction := None\<rparr>)
   \<and> (lastAction app = None \<longrightarrow>
        \<not> undone (undoHandler ''POST'' app)
        \<and> undoHandler ''POST'' app = (Redirect ''/'', [], app))
   \<and> \<not> undone (undoHandler ''POST'' (snd (snd (undoHandler ''POST'' app))))
   \<and> fst (snd (undoHandler ''POST'' (snd (snd (undoHandler ''POST'' app))))) = []
   \<and> snd (snd (undoHandler ''POST'' (snd (snd (undoHandler ''POST'' app)))))
       = snd (snd (undoHandler ''POST'' app))
   \<and> (client app \<noteq> None \<and> find (\<lambda>s. Key s = tagKey) (Shortcuts (config app)) = Some sc
        \<and> docULID \<noteq> [] \<longrightarrow>
        fst (snd (tagHandler ''POST'' tagKey item docULID docName renameOK None reply app))
          = [AddTag docULID (shortcutTagID sc), FetchTags docULID]
        \<and> fst (snd (undoHandler ''POST''
             (snd (snd (tagHandler ''POST'' tagKey item docULID docName renameOK None reply app)))))
          = [RemoveTag docULID (shortcutTagID sc)])
   \<and> (client app = None \<and> find (\<lambda>s. Key s = tagKey) (Shortcuts (config app)) = Some sc
        \<and> shortcutName sc \<noteq> [] \<and> item \<noteq> [] \<longrightarrow>
        fst (snd (undoHandler ''POST''
             (snd (snd (tagHandler ''POST'' tagKey item docULID docName True addTagErr reply app)))))
          = [Rename (JoinPath (JoinPath (Path (TaggedDir (config app))) (shortcutName sc)) item)
                    (JoinPath (Path (InboxDir (config app))) item)])"
proof -
  have a: "lastAction app = Some la \<Longrightarrow>
      undone (undoHandler ''POST'' app)
      \<and> fst (snd (undoHandler ''POST'' app)) =
          [if isDemo app
           then Rename (JoinPath (ToDir la) (File la)) (JoinPath (FromDir la) (File la))
           else RemoveTag (DocULID la) (TagID la)]
      \<and> snd (snd (undoHandler ''POST'' app)) = app\<lparr>lastAction := None\<rparr>"
    by (simp add: undoHandler_some undone_def)
  have b: "lastAction app = None \<Longrightarrow>
        \<not> undone (undoHandler ''POST'' app)
        \<and> undoHandler ''POST'' app = (Redirect ''/'', [], app)"
    by (simp add: undoHandler_none undone_def)
  let ?app1 = "snd (snd (undoHandler ''POST'' app))"
  have c: "undoHandler ''POST'' ?app1 = (Redirect ''/'', [], ?app1)"
    using undoHandler_clears by (rule undoHandler_none)
  have d: "fst (snd (undoHandler ''POST''
             (snd (snd (tagHandler ''POST'' tagKey item docULID docName renameOK None reply app)))))
          = [RemoveTag docULID (shortcutTagID sc)]"
    if "client app \<noteq> None" "find (\<lambda>s. Key s = tagKey) (Shortcuts (config app)) = Some sc"
       "docULID \<noteq> []"
    using that
    by (simp add: tagHandler_server undoHandler_some[where la = "noAction\<lparr>DocULID := docULID,
          DocName := docName, TagID := shortcutTagID sc, TagName := shortcutName sc\<rparr>"]
          isDemo_def captureTagSet_client del: not_None_eq)
  have e: "fst (snd (undoHandler ''POST''
             (snd (snd (tagHandler ''POST'' tagKey item docULID docName True addTagErr reply app)))))
          = [Rename (JoinPath (JoinPath (Path (TaggedDir (config app))) (shortcutName sc)) item)
                    (JoinPath (Path (InboxDir (config app))) item)]"
    if "client app = None" "find (\<lambda>s. Key s = tagKey) (Shortcuts (config app)) = Some sc"
       "shortcutName sc \<noteq> []" "item \<noteq> []"
    using that
    by (simp add: tagHandler_demo undoHandler_some[where la = "noAction\<lparr>File := item,
                 FromDir := Path (InboxDir (config app)),
                 ToDir := JoinPath (Path (TaggedDir (config app))) (shortcutName sc)\<rparr>"]
          isDemo_def)
  show ?thesis
    using a b d e by (simp add: c undone_def tagHandler_server del: not_None_eq)
qed

theorem undo_single_level_witness:
  "fst (snd (tagHandler ''POST'' ''l'' [] ''D3'' ''scan.pdf'' True None (TagList tagsD3) keyedApp))
     = [AddTag ''D3'' 18, FetchTags ''D3'']
   \<and> fst (snd (undoHandler ''POST''
        (snd (snd (tagHandler ''POST'' ''l'' [] ''D3'' ''scan.pdf'' True None (TagList tagsD3) keyedApp)))))
     = [RemoveTag ''D3'' 18]
   \<and> fst (snd (undoHandler ''POST'' (snd (snd (undoHandler ''POST''
        (snd (snd (tagHandler ''POST'' ''l'' [] ''D3'' ''scan.pdf'' True None (TagList tagsD3) keyedApp)))))))) = []"
proof -
  have c: "client keyedApp \<noteq> None" by (simp add: keyedApp_def serverApp_def)
  have f: "find (\<lambda>s. Key s = ''l'') (Shortcuts (config keyedApp))
             = Some \<lparr>Key = ''l'', shortcutTagID = 18, shortcutName = ''letter'',
                     shortcutColor = ''#abc''\<rparr>"
    by (simp add: keyedApp_def serverApp_def)
  have n: "''D3'' \<noteq> []" by simp
  let ?t = "snd (snd (tagHandler ''POST'' ''l'' [] ''D3'' ''scan.pdf'' True None (TagList tagsD3) keyedApp))"
  show ?thesis
    using undo_single_level[where app = keyedApp and tagKey = "''l''" and docULID = "''D3''"
        and sc = "\<lparr>Key = ''l'', shortcutTagID = 18, shortcutName = ''letter'',
                  shortcutColor = ''#abc''\<rparr>"
        and item = "[]" and docName = "''scan.pdf''" and renameOK = True
        and reply = "TagList tagsD3"]
      undo_single_level[where app = ?t] c f n
    by simp
qed

section \<open>Stage tracker and pipeline: facts\<close>

lemma stage_consts: "stageOCR \<noteq> []" "stageLLM \<noteq> []" "stageOCR \<noteq> stageLLM"
  by (simp_all add: stageOCR_def stageLLM_def)

lemma tryClaim_idle:
  "stageOf app ulid = [] \<Longrightarrow>
   tryClaim ulid docType app =
     ([ProcessDocument ulid docType], app\<lparr>docStage := (docStage app)(ulid \<mapsto> stageOCR)\<rparr>)"
  by (simp add: tryClaim_def)

lemma tryClaim_busy: "stageOf app ulid \<noteq> [] \<Longrightarrow> tryClaim ulid docType app = ([], app)"
  by (simp add: tryClaim_def)

lemma stageOf_claimed: "stageOf (app\<lparr>docStage := (docStage app)(ulid \<mapsto> s)\<rparr>) ulid = s"
  by (simp add: stageOf_def)

lemma perform_untouched: "\<not> touches ulid a \<Longrightarrow> docStage (perform a app) ulid = docStage app ulid"
  by (cases a) auto

lemma stageOf_perform_untouched:
  "\<not> touches ulid a \<Longrightarrow> stageOf (perform a app) ulid = stageOf app ulid"
  by (simp add: stageOf_def perform_untouched)

lemma states_nonempty: "states as app \<noteq> []"
  by (cases as) auto

lemma hd_states: "hd (states as app) = app"
  by (cases as) auto

text \<open>What is observed of one document depends on its own entry only.\<close>

lemma perform_cong:
  "docStage app ulid = docStage app' ulid \<Longrightarrow>
   docStage (perform a app) ulid = docStage (perform a app') ulid"
  by (cases a) simp_all

lemma states_cong:
  "docStage app ulid = docStage app' ulid \<Longrightarrow>
   map (\<lambda>s. docStage s ulid) (states as app) = map (\<lambda>s. docStage s ulid) (states as app')"
proof (induction as arbitrary: app app')
  case Nil
  then show ?case by simp
next
  case (Cons a as)
  from Cons.prems have "docStage (perform a app) ulid = docStage (perform a app') ulid"
    by (rule perform_cong)
  then have "map (\<lambda>s. docStage s ulid) (states as (perform a app))
      = map (\<lambda>s. docStage s ulid) (states as (perform a app'))"
    by (rule Cons.IH)
  with Cons.prems show ?case by simp
qed

lemma observe_cong:
  assumes "docStage app ulid = docStage app' ulid"
  shows "map (\<lambda>s. stageOf s ulid) (states as app) = map (\<lambda>s. stageOf s ulid) (states as app')"
proof -
  have e: "map (\<lambda>s. stageOf s ulid) xs
      = map (\<lambda>d. case d of None \<Rightarrow> [] | Some s \<Rightarrow> s) (map (\<lambda>s. docStage s ulid) xs)"
    for xs
    by (simp add: stageOf_def)
  show ?thesis by (simp only: e states_cong[OF assms])
qed

lemma runActions_Cons: "runActions (a # as) app = runActions as (perform a app)"
  by (simp add: runActions_def states_nonempty)

lemma runActions_cong:
  "docStage app ulid = docStage app' ulid \<Longrightarrow>
   docStage (runActions as app) ulid = docStage (runActions as app') ulid"
proof (induction as arbitrary: app app')
  case Nil
  then show ?case by (simp add: runActions_def)
next
  case (Cons a as)
  from Cons.prems have "docStage (perform a app) ulid = docStage (perform a app') ulid"
    by (rule perform_cong)
  then have "docStage (runActions as (perform a app)) ulid
      = docStage (runActions as (perform a app')) ulid"
    by (rule Cons.IH)
  then show ?case by (simp only: runActions_Cons)
qed

lemma remdups_adj_twice: "remdups_adj (x # x # xs) = remdups_adj (x # xs)"
  by simp

lemma stagesObserved_filter:
  "stagesObserved ulid (states as app) = stagesObserved ulid (states (filter (touches ulid) as) app)"
proof (induction as arbitrary: app)
  case Nil
  then show ?case by simp
next
  case (Cons a as)
  show ?case
  proof (cases "touches ulid a")
    case True
    then show ?thesis
      using Cons.IH[of "perform a app"]
      by (simp add: stagesObserved_def remdups_adj_Cons)
  next
    case False
    let ?f = "filter (touches ulid) as"
    obtain rest where r: "map (\<lambda>s. stageOf s ulid) (states as (perform a app))
        = stageOf app ulid # rest"
      using stageOf_perform_untouched[OF False, of app]
      by (cases as) auto
    have "stagesObserved ulid (states (a # as) app)
        = remdups_adj (stageOf app ulid # stageOf app ulid # rest)"
      using r by (simp add: stagesObserved_def)
    also have "\<dots> = stagesObserved ulid (states as (perform a app))"
      using r by (simp add: stagesObserved_def)
    also have "\<dots> = stagesObserved ulid (states ?f (perform a app))"
      by (rule Cons.IH)
    also have "\<dots> = stagesObserved ulid (states ?f app)"
      unfolding stagesObserved_def
      using observe_cong[of "perform a app" ulid app ?f] perform_untouched[OF False, of app]
      by simp
    finally show ?thesis using False by simp
  qed
qed

lemma runActions_filter:
  "docStage (runActions as app) ulid = docStage (runActions (filter (touches ulid) as) app) ulid"
proof (induction as arbitrary: app)
  case Nil
  then show ?case by simp
next
  case (Cons a as)
  show ?case
  proof (cases "touches ulid a")
    case True
    then show ?thesis using Cons.IH[of "perform a app"] by (simp add: runActions_Cons)
  next
    case False
    have "docStage (runActions (a # as) app) ulid
        = docStage (runActions (filter (touches ulid) as) (perform a app)) ulid"
      using Cons.IH[of "perform a app"] by (simp only: runActions_Cons)
    also have "\<dots> = docStage (runActions (filter (touches ulid) as) app) ulid"
      using perform_untouched[OF False, of app] by (rule runActions_cong)
    finally show ?thesis using False by simp
  qed
qed

text \<open>The ten exit paths of a run with their actions.\<close>

lemma processDocument_cases:
  obtains
    (DownloadFailed) "processDocument app env ulid docType = (DownloadFailed, [Download ulid, DeleteStage ulid])"
  | (TempFileFailed) "processDocument app env ulid docType =
       (TempFileFailed, [Download ulid, CreateTemp (''godocs-ocr-*'' @ docType), DeleteStage ulid])"
  | (WriteFailed) tmp data where
    "processDocument app env ulid docType =
       (WriteFailed, [Download ulid, CreateTemp (''godocs-ocr-*'' @ docType), WriteFile tmp data,
                      RemoveFile tmp, DeleteStage ulid])"
  | (ExtractionFailed) tmp data err where
    "processDocument app env ulid docType =
       (ExtractionFailed err, upToOCR ulid docType tmp data @ [RemoveFile tmp, DeleteStage ulid])"
  | (NoText) tmp data where
    "processDocument app env ulid docType =
       (NoText, upToOCR ulid docType tmp data @ [RemoveFile tmp, DeleteStage ulid])"
  | (UploadTextFailed) tmp data ocrText where
    "processDocument app env ulid docType =
       (UploadTextFailed,
        upToOCR ulid docType tmp data @ [UploadText ulid ocrText, RemoveFile tmp, DeleteStage ulid])"
  | (InferenceFailed) tmp data ocrText url model err where
    "processDocument app env ulid docType =
       (InferenceFailed err,
        upToInfer ulid docType tmp data ocrText url model @ [RemoveFile tmp, DeleteStage ulid])"
  | (NoDate) tmp data ocrText url model where
    "processDocument app env ulid docType =
       (NoDate, upToInfer ulid docType tmp data ocrText url model @ [RemoveFile tmp, DeleteStage ulid])"
  | (UpdateDateFailed) tmp data ocrText url model dateStr where
    "processDocument app env ulid docType =
       (UpdateDateFailed,
        upToInfer ulid docType tmp data ocrText url model @
        [UpdateDate ulid dateStr, RemoveFile tmp, DeleteStage ulid])"
    "\<not> updateDateOK env"
  | (Completed) tmp data ocrText url model dateStr where
    "processDocument app env ulid docType =
       (Completed,
        upToInfer ulid docType tmp data ocrText url model @
        [UpdateDate ulid dateStr, SetLLMDate ulid, RemoveFile tmp, DeleteStage ulid])"
    "updateDateOK env"
proof (cases "download env")
  case None
  then show ?thesis using that(1) by (simp add: processDocument_def)
next
  case d: (Some data)
  show ?thesis
  proof (cases "createTemp env")
    case None
    then show ?thesis using that(2) d by (simp add: processDocument_def)
  next
    case t: (Some tmp)
    show ?thesis
    proof (cases "writeOK env")
      case False
      then show ?thesis using that(3) d t by (simp add: processDocument_def)
    next
      case w: True
      show ?thesis
      proof (cases "ExtractText (tools env) tmp docType")
        case (Inl err)
        then show ?thesis using that(4) d t w by (simp add: processDocument_def upToOCR_def)
      next
        case x: (Inr ocrText)
        show ?thesis
        proof (cases "ocrText = []")
          case True
          then show ?thesis using that(5) d t w x by (simp add: processDocument_def upToOCR_def)
        next
          case n: False
          show ?thesis
          proof (cases "uploadTextOK env")
            case False
            then show ?thesis using that(6) d t w x n
              by (simp add: processDocument_def upToOCR_def)
          next
            case u: True
            define url where "url = (if OllamaURL (config app) = [] then ''http://localhost:11434''
                       else OllamaURL (config app))"
            define model where "model = (if OllamaModel (config app) = [] then ''gemma3:4b''
                   else OllamaModel (config app))"
            obtain dateStr e where i: "InferDate (inference env) url model ocrText = (dateStr, e)"
              by fastforce
            have pd: "processDocument app env ulid docType =
                (case e of
                   Some err \<Rightarrow> (InferenceFailed err,
                      upToInfer ulid docType tmp data ocrText url model @ [RemoveFile tmp, DeleteStage ulid])
                 | None \<Rightarrow>
                     if dateStr = [] then (NoDate,
                        upToInfer ulid docType tmp data ocrText url model @ [RemoveFile tmp, DeleteStage ulid])
                     else if \<not> updateDateOK env then (UpdateDateFailed,
                        upToInfer ulid docType tmp data ocrText url model @
                        [UpdateDate ulid dateStr, RemoveFile tmp, DeleteStage ulid])
                     else (Completed,
                        upToInfer ulid docType tmp data ocrText url model @
                        [UpdateDate ulid dateStr, SetLLMDate ulid, RemoveFile tmp, DeleteStage ulid]))"
              using d t w x n u i[unfolded url_def model_def]
              by (simp add: processDocument_def upToOCR_def upToInfer_def url_def model_def
                    split: option.splits)
            show ?thesis
            proof (cases e)
              case (Some err)
              then show ?thesis using that(7) pd by simp
            next
              case None
              then show ?thesis using that(8,9,10) pd
                by (cases "dateStr = []"; cases "updateDateOK env") simp_all
            qed
          qed
        qed
      qed
    qed
  qed
qed

text \<open>The stage writes of a run, in order.\<close>

lemma processDocument_touches:
  "filter (touches ulid) (snd (processDocument app env ulid docType)) =
     (if reachedLLM (fst (processDocument app env ulid docType))
      then [SetStage ulid stageLLM, DeleteStage ulid] else [DeleteStage ulid])"
  by (cases rule: processDocument_cases[of app env ulid docType])
     (simp_all add: upToOCR_def upToInfer_def)

lemma processDocument_last:
  "last (snd (processDocument app env ulid docType)) = DeleteStage ulid"
  by (cases rule: processDocument_cases[of app env ulid docType]) simp_all

lemma processDocument_flag:
  "SetLLMDate u \<in> set (snd (processDocument app env ulid docType)) \<longleftrightarrow>
     fst (processDocument app env ulid docType) = Completed \<and> u = ulid"
  by (cases rule: processDocument_cases[of app env ulid docType])
     (auto simp: upToOCR_def upToInfer_def)

lemma processDocument_completed:
  assumes "fst (processDocument app env ulid docType) = Completed"
  shows "updateDateOK env \<and>
         (\<exists>pre dateStr tmp. snd (processDocument app env ulid docType) =
            pre @ [UpdateDate ulid dateStr, SetLLMDate ulid, RemoveFile tmp, DeleteStage ulid])"
  using assms
  by (cases rule: processDocument_cases[of app env ulid docType]) auto

lemma processDocument_upload_failed:
  assumes "fst (processDocument app env ulid docType) = UpdateDateFailed"
  shows "\<not> updateDateOK env"
  using assms
  by (cases rule: processDocument_cases[of app env ulid docType]) auto

text \<open>The provenance flags are written by one action only.\<close>

lemma captureTagSet_frame:
  "llmDates (captureTagSet reply app) = llmDates app
   \<and> docStage (captureTagSet reply app) = docStage app"
  by (auto simp: captureTagSet_def Let_def split: sum.splits)

lemma tryClaim_llmDates: "llmDates (snd (tryClaim ulid docType app)) = llmDates app"
  by (simp add: tryClaim_def)

lemma viewDocument_llmDates:
  "llmDates (snd (snd (viewDocument ulid hasText hasThumbnail docType thumbExists app)))
     = llmDates app"
  by (simp add: viewDocument_def Let_def tryClaim_def split: prod.splits)

lemma tagHandler_llmDates:
  "llmDates (snd (snd (tagHandler method tagKey item docULID docName renameOK addTagErr reply app)))
     = llmDates app"
  by (simp add: tagHandler_def Let_def captureTagSet_frame split: option.splits)

lemma doneHandler_llmDates: "llmDates (snd (snd (doneHandler method ulid reply app))) = llmDates app"
  by (simp add: doneHandler_def captureTagSet_frame)

lemma applyTagsetHandler_llmDates:
  "llmDates (snd (snd (applyTagsetHandler method ulid docName index reply app))) = llmDates app"
  by (simp add: applyTagsetHandler_def Let_def captureTagSet_frame split: option.splits)

lemma undoHandler_llmDates: "llmDates (snd (snd (undoHandler method app))) = llmDates app"
  by (simp add: undoHandler_def Let_def split: option.splits)

lemma applyOp_llmDates:
  "llmDates (applyOp op app) =
     (case op of OpAction (SetLLMDate u) \<Rightarrow> (llmDates app)(u \<mapsto> True) | _ \<Rightarrow> llmDates app)"
proof (cases op)
  case (OpAction a)
  then show ?thesis by (cases a) simp_all
qed (simp_all add: viewDocument_llmDates tagHandler_llmDates doneHandler_llmDates
      applyTagsetHandler_llmDates undoHandler_llmDates)

section \<open>The goroutines together: at most one pipeline for a document\<close>

lemma runningIn_append: "runningIn (ps @ qs) u = runningIn ps u @ runningIn qs u"
  by (simp add: runningIn_def)

lemma runningIn_single:
  "runningIn [(v, as)] u = (if v = u \<and> as \<noteq> [] then [as] else [])"
  by (simp add: runningIn_def)

lemma runningIn_Cons: "runningIn ((v, as) # ps) u = runningIn [(v, as)] u @ runningIn ps u"
  by (simp add: runningIn_def)

lemma processDocument_tailOK:
  "tailOK ulid (snd (processDocument app env ulid docType))
   \<and> snd (processDocument app env ulid docType) \<noteq> []"
  by (cases rule: processDocument_cases[of app env ulid docType])
     (simp_all add: tailOK_def ownAction_def upToOCR_def upToInfer_def stage_consts)

lemma tailOK_tl: "tailOK u (a # as) \<Longrightarrow> tailOK u as"
  by (cases as) (auto simp: tailOK_def)

lemma tailOK_own: "tailOK u (a # as) \<Longrightarrow> ownAction u a"
  by (simp add: tailOK_def)

lemma tailOK_last: "tailOK u [a] \<Longrightarrow> a = DeleteStage u"
  by (simp add: tailOK_def)

lemma tailOK_not_last: "tailOK u (a # as) \<Longrightarrow> as \<noteq> [] \<Longrightarrow> a \<noteq> DeleteStage u"
  by (auto simp: tailOK_def)

lemma perform_other:
  "ownAction v a \<Longrightarrow> u \<noteq> v \<Longrightarrow> docStage (perform a app) u = docStage app u"
  by (cases a) (auto simp: ownAction_def)

lemma perform_own_values:
  "ownAction v a \<Longrightarrow> docStage (perform a app) u = Some s \<Longrightarrow>
   (\<forall>u s. docStage app u = Some s \<longrightarrow> s \<noteq> []) \<Longrightarrow> s \<noteq> []"
  by (cases a) (auto simp: ownAction_def split: if_splits)

lemma perform_own_entry:
  "ownAction v a \<Longrightarrow> a \<noteq> DeleteStage v \<Longrightarrow> docStage app v \<noteq> None \<Longrightarrow>
   docStage (perform a app) v \<noteq> None"
  by (cases a) (auto simp: ownAction_def)

lemma perform_delete: "docStage (perform (DeleteStage v) app) v = None"
  by simp


lemma handlers_docStage:
  "docStage (snd (snd (tagHandler method tagKey item docULID docName renameOK addTagErr reply app)))
     = docStage app"
  "docStage (snd (snd (doneHandler method ulid reply app))) = docStage app"
  "docStage (snd (snd (applyTagsetHandler method ulid docName index reply app))) = docStage app"
  "docStage (snd (snd (undoHandler method app))) = docStage app"
  by (simp_all add: tagHandler_def doneHandler_def applyTagsetHandler_def undoHandler_def Let_def
        captureTagSet_frame split: option.splits)

lemma applyOp_docStage: "isRequest op \<Longrightarrow> docStage (applyOp op app) = docStage app"
  by (cases op) (simp_all add: handlers_docStage)

lemma fire_View_claim:
  assumes "\<not> hasText" "stageOf (shared sys) ulid = []"
  shows "fire (View ulid hasText hasThumbnail docType thumbExists env) sys =
           \<lparr>shared = (shared sys)\<lparr>docStage := (docStage (shared sys))(ulid \<mapsto> stageOCR)\<rparr>,
            pipelines = pipelines sys @
              [(ulid, snd (processDocument
                       ((shared sys)\<lparr>docStage := (docStage (shared sys))(ulid \<mapsto> stageOCR)\<rparr>)
                       env ulid docType))]\<rparr>"
  using assms by (simp add: viewDocument_def tryClaim_def Let_def)

lemma fire_View_noclaim:
  assumes "hasText \<or> stageOf (shared sys) ulid \<noteq> []"
  shows "fire (View ulid hasText hasThumbnail docType thumbExists env) sys = sys"
  using assms by (auto simp: viewDocument_def Let_def)

lemma sysInv_start: "docStage app = Map.empty \<Longrightarrow> sysInv \<lparr>shared = app, pipelines = []\<rparr>"
  by (simp add: sysInv_def running_def runningIn_def)

lemma sysInv_Request:
  assumes "sysInv sys"
  shows "sysInv (fire (Request op) sys)"
  using assms by (simp add: sysInv_def running_def applyOp_docStage)

lemma sysInv_View:
  assumes inv: "sysInv sys"
  shows "sysInv (fire (View ulid hasText hasThumbnail docType thumbExists env) sys)"
proof (cases "\<not> hasText \<and> stageOf (shared sys) ulid = []")
  case False
  then have "fire (View ulid hasText hasThumbnail docType thumbExists env) sys = sys"
    using fire_View_noclaim by blast
  with inv show ?thesis by simp
next
  case True
  let ?app = "shared sys"
  let ?app1 = "?app\<lparr>docStage := (docStage ?app)(ulid \<mapsto> stageOCR)\<rparr>"
  let ?acts = "snd (processDocument ?app1 env ulid docType)"
  let ?sys1 = "\<lparr>shared = ?app1, pipelines = pipelines sys @ [(ulid, ?acts)]\<rparr>"
  have f: "fire (View ulid hasText hasThumbnail docType thumbExists env) sys = ?sys1"
    using True fire_View_claim[of hasText sys ulid hasThumbnail docType thumbExists env] by blast
  from inv have vals: "\<forall>u s. docStage ?app u = Some s \<longrightarrow> s \<noteq> []"
    by (simp add: sysInv_def)
  have none: "docStage ?app ulid = None"
  proof (cases "docStage ?app ulid")
    case None
    then show ?thesis .
  next
    case (Some s)
    with True have "s = []" by (simp add: stageOf_def)
    with vals Some show ?thesis by blast
  qed
  from inv have entry: "\<And>u. docStage ?app u \<noteq> None \<longleftrightarrow> runningIn (pipelines sys) u \<noteq> []"
    by (simp add: sysInv_def running_def)
  have idle: "runningIn (pipelines sys) ulid = []"
    using entry[of ulid] none by simp
  have acts: "tailOK ulid ?acts" "?acts \<noteq> []"
    using processDocument_tailOK[of ulid ?app1 env docType] by simp_all
  have p1: "list_all (\<lambda>p. tailOK (fst p) (snd p)) (pipelines ?sys1)"
    using inv acts(1) by (simp add: sysInv_def)
  have p2: "length (running ?sys1 u) \<le> 1
      \<and> (docStage (shared ?sys1) u \<noteq> None \<longleftrightarrow> running ?sys1 u \<noteq> [])" for u
  proof (cases "u = ulid")
    case True
    then show ?thesis
      using idle acts(2) by (simp add: running_def runningIn_append runningIn_single)
  next
    case False
    then show ?thesis
      using inv by (simp add: sysInv_def running_def runningIn_append runningIn_single)
  qed
  have p3: "\<forall>u s. docStage (shared ?sys1) u = Some s \<longrightarrow> s \<noteq> []"
    using vals stage_consts(1) by simp
  show ?thesis
    unfolding f using p1 p2 p3 by (simp add: sysInv_def)
qed

lemma sysInv_Step:
  assumes inv: "sysInv sys"
  shows "sysInv (fire (Step i) sys)"
proof (cases "i < length (pipelines sys)")
  case False
  with inv show ?thesis by simp
next
  case True
  obtain v rest where p: "pipelines sys ! i = (v, rest)" by fastforce
  show ?thesis
  proof (cases rest)
    case Nil
    with True p inv show ?thesis by simp
  next
    case (Cons a as)
    let ?ps = "pipelines sys"
    let ?pre = "take i ?ps"
    let ?post = "drop (Suc i) ?ps"
    let ?app = "shared sys"
    let ?sys1 = "\<lparr>shared = perform a ?app, pipelines = ?pre @ (v, as) # ?post\<rparr>"
    have ps: "?ps = ?pre @ (v, a # as) # ?post"
      using id_take_nth_drop[OF True] p Cons by simp
    have f: "fire (Step i) sys = ?sys1"
      using True p Cons by (simp add: upd_conv_take_nth_drop)
    from inv have tails: "list_all (\<lambda>p. tailOK (fst p) (snd p)) ?ps"
      and one: "\<And>u. length (runningIn ?ps u) \<le> 1"
      and entry: "\<And>u. docStage ?app u \<noteq> None \<longleftrightarrow> runningIn ?ps u \<noteq> []"
      and vals: "\<forall>u s. docStage ?app u = Some s \<longrightarrow> s \<noteq> []"
      by (simp_all add: sysInv_def running_def)
    have tpre: "list_all (\<lambda>p. tailOK (fst p) (snd p)) ?pre"
      and t: "tailOK v (a # as)"
      and tpost: "list_all (\<lambda>p. tailOK (fst p) (snd p)) ?post"
      using tails by (subst (asm) ps, simp)+
    have r: "runningIn ?ps u = runningIn ?pre u @ runningIn [(v, a # as)] u @ runningIn ?post u"
      for u
      by (subst ps) (simp add: runningIn_def)
    have r1: "runningIn (?pre @ (v, bs) # ?post) u
        = runningIn ?pre u @ runningIn [(v, bs)] u @ runningIn ?post u" for u bs
      by (simp add: runningIn_def)
    have "length (runningIn ?pre v @ [a # as] @ runningIn ?post v) \<le> 1"
      using one[of v] by (simp add: r runningIn_single)
    then have alone: "runningIn ?pre v = []" "runningIn ?post v = []"
      by simp_all
    have own: "ownAction v a" using t by (rule tailOK_own)
    have p1: "list_all (\<lambda>p. tailOK (fst p) (snd p)) (pipelines ?sys1)"
      using tpre tpost tailOK_tl[OF t] by simp
    have p2: "length (running ?sys1 u) \<le> 1
      \<and> (docStage (shared ?sys1) u \<noteq> None \<longleftrightarrow> running ?sys1 u \<noteq> [])" for u
    proof (cases "u = v")
      case False
      have "runningIn (?pre @ (v, as) # ?post) u = runningIn ?ps u"
        using False by (simp add: r r1 runningIn_single)
      moreover have "docStage (perform a ?app) u = docStage ?app u"
        using own False by (rule perform_other)
      ultimately show ?thesis
        using one[of u] entry[of u] by (simp add: running_def)
    next
      case True
      have before: "docStage ?app v \<noteq> None"
        using entry[of v] by (simp add: r runningIn_single)
      show ?thesis
      proof (cases "as = []")
        case e: True
        then have "a = DeleteStage v" using t tailOK_last by blast
        then show ?thesis
          using True e alone by (simp add: running_def r1 runningIn_single)
      next
        case ne: False
        then have "a \<noteq> DeleteStage v" using t tailOK_not_last by blast
        then have "docStage (perform a ?app) v \<noteq> None"
          using own before perform_own_entry by blast
        then show ?thesis
          using True ne alone by (simp add: running_def r1 runningIn_single)
      qed
    qed
    have p3: "\<forall>u s. docStage (shared ?sys1) u = Some s \<longrightarrow> s \<noteq> []"
      using perform_own_values[OF own _ vals] by auto
    show ?thesis
      unfolding f using p1 p2 p3 by (simp add: sysInv_def)
  qed
qed

lemma sysInv_fire: "sysInv sys \<Longrightarrow> sysInv (fire e sys)"
  by (cases e) (simp_all only: sysInv_View sysInv_Step sysInv_Request)

lemma sysInv_run: "sysInv sys \<Longrightarrow> sysInv (run es sys)"
  by (induction es arbitrary: sys) (simp_all add: sysInv_fire)

lemma one_pipeline_per_document:
  assumes "docStage app = Map.empty"
  shows "length (running (run es \<lparr>shared = app, pipelines = []\<rparr>) u) \<le> 1
       \<and> (docStage (shared (run es \<lparr>shared = app, pipelines = []\<rparr>)) u \<noteq> None
            \<longleftrightarrow> running (run es \<lparr>shared = app, pipelines = []\<rparr>) u \<noteq> [])"
  using sysInv_run[OF sysInv_start[OF assms], of es] by (simp add: sysInv_def)

section \<open>Stage tracker and pipeline: the claims\<close>

text \<open>
  Claim C1. The stage tracker is a map, so it holds at most one entry for a document
  identifier. The claim is one atomic step under the mutex, so two concurrent attempts
  for the same identifier happen one after the other: when the identifier has no
  entry, the first records the stage \<open>ocr\<close> and starts the pipeline, and the second,
  like every attempt while an entry exists, starts nothing and leaves the state as it
  is. A page view starts at most one pipeline, for the document viewed, and only
  together with a claim that succeeded. In every interleaving of page views, pipeline
  actions and other requests, from a state without entries, at most one pipeline of a
  document is unfinished, and the document has an entry exactly while one is.
\<close>

theorem claim_admits_one_pipeline:
  "(stageOf app ulid = [] \<longrightarrow>
      tryClaim ulid docType app =
        ([ProcessDocument ulid docType], app\<lparr>docStage := (docStage app)(ulid \<mapsto> stageOCR)\<rparr>)
      \<and> docStage (snd (tryClaim ulid docType app)) ulid = Some stageOCR
      \<and> tryClaim ulid docType' (snd (tryClaim ulid docType app))
          = ([], snd (tryClaim ulid docType app)))
   \<and> (docStage app ulid = None \<longrightarrow> stageOf app ulid = [])
   \<and> (stageOf app ulid \<noteq> [] \<longrightarrow> tryClaim ulid docType app = ([], app))
   \<and> (ProcessDocument u d
         \<in> set (fst (snd (viewDocument ulid hasText hasThumbnail docType thumbExists app))) \<longrightarrow>
        u = ulid \<and> d = docType \<and> stageOf app ulid = []
        \<and> docStage (snd (snd (viewDocument ulid hasText hasThumbnail docType thumbExists app))) ulid
            = Some stageOCR)
   \<and> length (filter (\<lambda>g. \<exists>u d. g = ProcessDocument u d)
         (fst (snd (viewDocument ulid hasText hasThumbnail docType thumbExists app)))) \<le> 1
   \<and> (docStage app = Map.empty \<longrightarrow>
        length (running (run es \<lparr>shared = app, pipelines = []\<rparr>) u) \<le> 1
        \<and> (docStage (shared (run es \<lparr>shared = app, pipelines = []\<rparr>)) u \<noteq> None
             \<longleftrightarrow> running (run es \<lparr>shared = app, pipelines = []\<rparr>) u \<noteq> []))"
proof -
  have a: "stageOf app ulid = [] \<Longrightarrow>
      tryClaim ulid docType' (snd (tryClaim ulid docType app))
          = ([], snd (tryClaim ulid docType app))"
    by (simp add: tryClaim_idle tryClaim_busy stageOf_claimed stage_consts)
  have b: "ProcessDocument u d
         \<in> set (fst (snd (viewDocument ulid hasText hasThumbnail docType thumbExists app))) \<Longrightarrow>
        u = ulid \<and> d = docType \<and> stageOf app ulid = []
        \<and> docStage (snd (snd (viewDocument ulid hasText hasThumbnail docType thumbExists app))) ulid
            = Some stageOCR"
    by (auto simp: viewDocument_def Let_def tryClaim_def split: if_splits prod.splits)
  have c: "length (filter (\<lambda>g. \<exists>u d. g = ProcessDocument u d)
         (fst (snd (viewDocument ulid hasText hasThumbnail docType thumbExists app)))) \<le> 1"
    by (auto simp: viewDocument_def Let_def tryClaim_def split: if_splits prod.splits)
  have d: "docStage app ulid = None \<Longrightarrow> stageOf app ulid = []"
    by (simp add: stageOf_def)
  have e: "docStage app = Map.empty \<Longrightarrow>
        length (running (run es \<lparr>shared = app, pipelines = []\<rparr>) u) \<le> 1
        \<and> (docStage (shared (run es \<lparr>shared = app, pipelines = []\<rparr>)) u \<noteq> None
             \<longleftrightarrow> running (run es \<lparr>shared = app, pipelines = []\<rparr>) u \<noteq> [])"
    by (rule one_pipeline_per_document)
  have f: "stageOf app ulid = [] \<longrightarrow>
      tryClaim ulid docType app =
        ([ProcessDocument ulid docType], app\<lparr>docStage := (docStage app)(ulid \<mapsto> stageOCR)\<rparr>)
      \<and> docStage (snd (tryClaim ulid docType app)) ulid = Some stageOCR
      \<and> tryClaim ulid docType' (snd (tryClaim ulid docType app))
          = ([], snd (tryClaim ulid docType app))"
    using a by (simp add: tryClaim_idle)
  have g: "stageOf app ulid \<noteq> [] \<longrightarrow> tryClaim ulid docType app = ([], app)"
    by (simp add: tryClaim_busy)
  from f d g b c e show ?thesis by blast
qed

theorem claim_admits_one_pipeline_witness:
  "tryClaim ''D1'' ''.pdf'' serverApp
     = ([ProcessDocument ''D1'' ''.pdf''],
        serverApp\<lparr>docStage := (docStage serverApp)(''D1'' \<mapsto> stageOCR)\<rparr>)
   \<and> fst (tryClaim ''D1'' ''.pdf'' (snd (tryClaim ''D1'' ''.pdf'' serverApp))) = []
   \<and> map fst (pipelines (run [View ''D1'' False False ''.pdf'' False goodEnv,
                               View ''D1'' False False ''.pdf'' False goodEnv]
                          \<lparr>shared = serverApp, pipelines = []\<rparr>)) = [''D1'']
   \<and> length (running (run [View ''D1'' False False ''.pdf'' False goodEnv,
                            View ''D1'' False False ''.pdf'' False goodEnv]
                       \<lparr>shared = serverApp, pipelines = []\<rparr>) ''D1'') \<le> 1"
proof -
  have i: "stageOf serverApp ''D1'' = []" by (simp add: serverApp_def stageOf_def)
  have m: "docStage serverApp = Map.empty" by (simp add: serverApp_def)
  note th = claim_admits_one_pipeline[where app = serverApp and ulid = "''D1''"
        and docType = "''.pdf''" and docType' = "''.pdf''" and u = "''D1''" and d = "''.pdf''"
        and hasText = False and hasThumbnail = False and thumbExists = False
        and es = "[View ''D1'' False False ''.pdf'' False goodEnv,
                   View ''D1'' False False ''.pdf'' False goodEnv]"]
  note th1 = th[THEN conjunct1, THEN mp, OF i]
  have a: "tryClaim ''D1'' ''.pdf'' serverApp
     = ([ProcessDocument ''D1'' ''.pdf''],
        serverApp\<lparr>docStage := (docStage serverApp)(''D1'' \<mapsto> stageOCR)\<rparr>)"
    by (rule th1[THEN conjunct1])
  have "tryClaim ''D1'' ''.pdf'' (snd (tryClaim ''D1'' ''.pdf'' serverApp))
     = ([], snd (tryClaim ''D1'' ''.pdf'' serverApp))"
    by (rule th1[THEN conjunct2, THEN conjunct2])
  then have b: "fst (tryClaim ''D1'' ''.pdf'' (snd (tryClaim ''D1'' ''.pdf'' serverApp))) = []"
    by simp
  have c: "map fst (pipelines (run [View ''D1'' False False ''.pdf'' False goodEnv,
                               View ''D1'' False False ''.pdf'' False goodEnv]
                          \<lparr>shared = serverApp, pipelines = []\<rparr>)) = [''D1'']"
    by (simp add: viewDocument_def tryClaim_def stageOf_def dateIsLLM_def Let_def
          stageOCR_def stageLLM_def serverApp_def)
  have d: "length (running (run [View ''D1'' False False ''.pdf'' False goodEnv,
                            View ''D1'' False False ''.pdf'' False goodEnv]
                       \<lparr>shared = serverApp, pipelines = []\<rparr>) ''D1'') \<le> 1"
    using th m by blast
  from a b c d show ?thesis by blast
qed

text \<open>
  Claim C4. A run starts with the claim in a state where the document is idle and goes
  on with the actions of \<open>processDocument\<close>, among which the actions of other
  goroutines that do not write this document's entry may be interleaved. The stages
  observed of the document during such a run are idle, \<open>ocr\<close>, \<open>llm\<close>, idle when the
  run got as far as the inference, and idle, \<open>ocr\<close>, idle when it ended earlier on a
  failure: no stage is skipped or seen twice, and \<open>llm\<close> comes only after \<open>ocr\<close>.
\<close>

theorem pipeline_stage_sequence:
  assumes "stageOf app ulid = []"
    and "filter (touches ulid) xs
           = filter (touches ulid)
               (snd (processDocument (snd (tryClaim ulid docType app)) env ulid docType))"
  shows "stagesObserved ulid (app # states xs (snd (tryClaim ulid docType app))) =
           (if reachedLLM (fst (processDocument (snd (tryClaim ulid docType app)) env ulid docType))
            then [[], stageOCR, stageLLM, []] else [[], stageOCR, []])"
proof -
  let ?app1 = "app\<lparr>docStage := (docStage app)(ulid \<mapsto> stageOCR)\<rparr>"
  let ?p = "processDocument ?app1 env ulid docType"
  have c: "snd (tryClaim ulid docType app) = ?app1"
    using assms(1) by (simp add: tryClaim_idle)
  have f: "filter (touches ulid) xs =
      (if reachedLLM (fst ?p) then [SetStage ulid stageLLM, DeleteStage ulid] else [DeleteStage ulid])"
    using assms(2) by (simp only: c processDocument_touches)
  have "stagesObserved ulid (states xs ?app1)
      = stagesObserved ulid (states (filter (touches ulid) xs) ?app1)"
    by (rule stagesObserved_filter)
  also have "\<dots> = (if reachedLLM (fst ?p) then [stageOCR, stageLLM, []] else [stageOCR, []])"
    by (simp add: f stagesObserved_def stageOf_def stage_consts)
  finally have o: "stagesObserved ulid (states xs ?app1)
      = (if reachedLLM (fst ?p) then [stageOCR, stageLLM, []] else [stageOCR, []])" .
  have "stagesObserved ulid (app # states xs ?app1)
      = (case stagesObserved ulid (states xs ?app1) of
           [] \<Rightarrow> [stageOf app ulid]
         | y # ys \<Rightarrow> if stageOf app ulid = y then y # ys else stageOf app ulid # y # ys)"
    by (simp add: stagesObserved_def remdups_adj_Cons)
  then show ?thesis
    using assms(1) stage_consts(1) by (simp add: o c)
qed

theorem pipeline_stage_sequence_witness:
  "stagesObserved ''D1''
     (serverApp # states (snd (processDocument (snd (tryClaim ''D1'' ''.pdf'' serverApp))
                                 goodEnv ''D1'' ''.pdf''))
                    (snd (tryClaim ''D1'' ''.pdf'' serverApp)))
   = [[], ''ocr'', ''llm'', []]"
proof -
  have i: "stageOf serverApp ''D1'' = []" by (simp add: serverApp_def stageOf_def)
  have r: "reachedLLM (fst (processDocument (snd (tryClaim ''D1'' ''.pdf'' serverApp))
                                 goodEnv ''D1'' ''.pdf''))"
    by code_simp
  show ?thesis
    using pipeline_stage_sequence[OF i refl, of "''.pdf''" goodEnv] r
    by (simp add: stageOCR_def stageLLM_def)
qed

text \<open>
  Claim C5. Whatever the collaborators answer, that is on every exit path of
  \<open>processDocument\<close> (download failure, scratch-file failure, write failure,
  unsupported type or another failure of the text extraction, empty text, text-upload
  failure, inference failure, no date, date-upload failure, success), the last action
  of the run is the removal of the document's stage entry, it is the only removal, and
  after the run the document has no entry; this also holds when actions that do not
  write this document's entry are interleaved. In every interleaving of page views,
  pipeline actions and other requests, from a state without entries, a document whose
  pipelines have all finished has no entry.
\<close>

theorem pipeline_always_releases:
  "last (snd (processDocument app env ulid docType)) = DeleteStage ulid
   \<and> filter (\<lambda>a. a = DeleteStage ulid) (snd (processDocument app env ulid docType))
       = [DeleteStage ulid]
   \<and> docStage (runActions (snd (processDocument app env ulid docType)) app') ulid = None
   \<and> (filter (touches ulid) xs = filter (touches ulid) (snd (processDocument app env ulid docType))
        \<longrightarrow> docStage (runActions xs app') ulid = None)
   \<and> (docStage app = Map.empty
        \<and> running (run es \<lparr>shared = app, pipelines = []\<rparr>) ulid = [] \<longrightarrow>
        docStage (shared (run es \<lparr>shared = app, pipelines = []\<rparr>)) ulid = None)"
proof -
  let ?p = "processDocument app env ulid docType"
  have d: "filter (\<lambda>a. a = DeleteStage ulid) (snd ?p) = [DeleteStage ulid]"
    by (cases rule: processDocument_cases[of app env ulid docType])
       (simp_all add: upToOCR_def upToInfer_def)
  have r: "docStage (runActions xs app') ulid = None"
    if "filter (touches ulid) xs = filter (touches ulid) (snd ?p)" for xs
  proof -
    have "docStage (runActions xs app') ulid
        = docStage (runActions (filter (touches ulid) xs) app') ulid"
      by (rule runActions_filter)
    then show ?thesis
      by (simp add: that processDocument_touches runActions_def)
  qed
  have s: "docStage (shared (run es \<lparr>shared = app, pipelines = []\<rparr>)) ulid = None"
    if "docStage app = Map.empty" "running (run es \<lparr>shared = app, pipelines = []\<rparr>) ulid = []"
    using one_pipeline_per_document[OF that(1), of es ulid] that(2) by simp
  show ?thesis
    using d r[of "snd ?p"] r[of xs] s by (simp add: processDocument_last)
qed

theorem pipeline_always_releases_witness:
  "fst (processDocument serverApp goodEnv ''D1'' ''.doc'') = ExtractionFailed UnsupportedType
   \<and> last (snd (processDocument serverApp goodEnv ''D1'' ''.doc'')) = DeleteStage ''D1''
   \<and> docStage (runActions (snd (processDocument serverApp goodEnv ''D1'' ''.doc''))
        (snd (tryClaim ''D1'' ''.doc'' serverApp))) ''D1'' = None
   \<and> docStage (snd (tryClaim ''D1'' ''.doc'' serverApp)) ''D1'' = Some ''ocr''"
proof -
  have e: "fst (processDocument serverApp goodEnv ''D1'' ''.doc'') = ExtractionFailed UnsupportedType"
    by code_simp
  have c: "docStage (snd (tryClaim ''D1'' ''.doc'' serverApp)) ''D1'' = Some ''ocr''"
    by (simp add: tryClaim_def stageOf_def serverApp_def stageOCR_def)
  show ?thesis
    using pipeline_always_releases[of serverApp goodEnv "''D1''" "''.doc''"
        "snd (tryClaim ''D1'' ''.doc'' serverApp)" "[]"] e c
    by simp
qed

text \<open>
  Claim C8. The only action that sets a provenance flag is \<open>SetLLMDate\<close>. A run of
  \<open>processDocument\<close> contains it exactly on the exit path \<open>Completed\<close>, for its own
  document, directly after the date upload, which succeeded; on the exit path of a
  failed date upload the run does not contain it. No operation on the application
  state clears a flag: a flag that is true stays true, and a flag becomes true only by
  that action.
\<close>

theorem provenance_flag_set_after_upload_only:
  "(SetLLMDate u \<in> set (snd (processDocument app env ulid docType)) \<longleftrightarrow>
      fst (processDocument app env ulid docType) = Completed \<and> u = ulid)
   \<and> (fst (processDocument app env ulid docType) = Completed \<longrightarrow>
        updateDateOK env \<and>
        (\<exists>pre dateStr tmp. snd (processDocument app env ulid docType) =
           pre @ [UpdateDate ulid dateStr, SetLLMDate ulid, RemoveFile tmp, DeleteStage ulid]))
   \<and> (fst (processDocument app env ulid docType) = UpdateDateFailed \<longrightarrow>
        \<not> updateDateOK env \<and> SetLLMDate u \<notin> set (snd (processDocument app env ulid docType)))
   \<and> (dateIsLLM app' u \<longrightarrow> dateIsLLM (applyOp op app') u)
   \<and> (dateIsLLM (applyOp op app') u \<and> \<not> dateIsLLM app' u \<longrightarrow> op = OpAction (SetLLMDate u))"
proof -
  have m: "dateIsLLM app' u \<Longrightarrow> dateIsLLM (applyOp op app') u"
    by (simp add: dateIsLLM_def applyOp_llmDates split: operation.splits action.splits)
  have o: "dateIsLLM (applyOp op app') u \<Longrightarrow> \<not> dateIsLLM app' u \<Longrightarrow> op = OpAction (SetLLMDate u)"
    by (simp add: dateIsLLM_def applyOp_llmDates split: operation.splits action.splits if_splits)
  show ?thesis
    using m o processDocument_completed[of app env ulid docType]
      processDocument_upload_failed[of app env ulid docType]
    by (simp add: processDocument_flag)
qed

theorem provenance_flag_set_after_upload_only_witness:
  "processDocument serverApp goodEnv ''D1'' ''.pdf'' = (Completed, goodActions)
   \<and> dateIsLLM (runActions goodActions serverApp) ''D1''
   \<and> \<not> dateIsLLM serverApp ''D1''
   \<and> dateIsLLM (applyOp (OpUndo ''POST'') (runActions goodActions serverApp)) ''D1''"
proof -
  have p: "processDocument serverApp goodEnv ''D1'' ''.pdf'' = (Completed, goodActions)"
    by code_simp
  have n: "\<not> dateIsLLM serverApp ''D1''" by (simp add: dateIsLLM_def serverApp_def)
  have y: "dateIsLLM (runActions goodActions serverApp) ''D1''"
    by (simp add: goodActions_def runActions_def dateIsLLM_def)
  from y n p show ?thesis
    using provenance_flag_set_after_upload_only
      [where app' = "runActions goodActions serverApp" and u = "''D1''" and op = "OpUndo ''POST''"
         and app = serverApp and env = goodEnv and ulid = "''D1''" and docType = "''.pdf''"]
    by simp
qed

section \<open>Thumbnail cache: the claim\<close>









end
